theory Spec2Isabelle
  imports Complex_Main "HOL-Library.Word"
begin

section \<open>The voice session engine of services/voice-gemini/audio\_loop.py\<close>

text \<open>
  The class \<open>AudioLoop\<close> is embedded as a record that is passed through every
  operation and returned updated. What the engine does to the outside world
  (callbacks, console output, sleeps, inputs sent into the remote session,
  device writes) is appended, in order, to the field \<open>effects\<close>. What the
  outside world hands to the engine (device reads, clock readings, the events of
  the remote session) is a parameter of the operation that consumes it. The
  collaborators that the engine calls and that may answer with an exception (the
  smart-home service, the remote session's \<open>send\<close>, the tool-call callback)
  are the fields of a record \<open>world\<close>. An effect is recorded when the call
  returned normally; a call that raised leaves its exception instead.

  A Python \<open>str\<close> is a list of code points; it is modelled as a \<open>string\<close> whose
  characters are the code points below 256 (all texts of the source are Latin-1).
  Wall-clock readings of \<open>time.time()\<close> are the \<open>real\<close> values of the floats;
  the float subtraction of the silence test is rounded as IEEE doubles are.
\<close>

subsection \<open>Values, events and effects\<close>

type_synonym byte = "8 word"
type_synonym bytes = "byte list"

text \<open>Argument values of a function call, and their rendering by an f-string.\<close>

datatype json = JNull | JBool bool | JInt int | JStr string

type_synonym args = "(string \<times> json) list"

definition digit_char :: "nat \<Rightarrow> char" where
  "digit_char d = char_of (48 + d)"

fun nat_digits :: "nat \<Rightarrow> string" where
  "nat_digits n =
     (if n < 10 then [digit_char n] else nat_digits (n div 10) @ [digit_char (n mod 10)])"

declare nat_digits.simps [simp del]

definition int_str :: "int \<Rightarrow> string" where
  "int_str i = (if i < 0 then CHR ''-'' # nat_digits (nat (- i)) else nat_digits (nat i))"

fun py_str :: "json \<Rightarrow> string" where
  "py_str JNull = ''None''"
| "py_str (JBool b) = (if b then ''True'' else ''False'')"
| "py_str (JInt i) = int_str i"
| "py_str (JStr s) = s"

text \<open>\<open>fc.args.get(k, d)\<close> on the dictionary of arguments.\<close>

definition args_get :: "args \<Rightarrow> string \<Rightarrow> json \<Rightarrow> json" where
  "args_get a k d = (case map_of a k of None \<Rightarrow> d | Some v \<Rightarrow> v)"

record function_call =
  fc_name :: string
  fc_args :: "args option"

datatype transcription = Transcription (tr_text: "string option")

record live_server_content =
  input_transcription :: "transcription option"
  output_transcription :: "transcription option"

text \<open>\<open>response.tool_call\<close>: its field \<open>function_calls\<close> is a list or
  \<open>None\<close>.\<close>

datatype tool_call_batch = ToolCall (function_calls: "function_call list option")

text \<open>One event of the remote session: \<open>response.data\<close>,
  \<open>response.server_content\<close> and \<open>response.tool_call\<close>.\<close>

record live_server_message =
  data :: "bytes option"
  server_content :: "live_server_content option"
  tool_call :: "tool_call_batch option"

text \<open>A turn is the list of events the iteration \<open>async for response in turn\<close>
  yields, and the way the iteration ends: normally, or by an exception of the
  stream.\<close>

datatype turn_end = TurnComplete | StreamError string

type_synonym turn = "live_server_message list \<times> turn_end"

text \<open>The request of \<open>client.post\<close> and its outcome: \<open>Inl\<close> carries the text
  of the exception raised (transport error, timeout), \<open>Inr\<close> the status code and
  the body of the response.\<close>

record http_request =
  url :: string
  target :: json
  action :: json
  brightness :: json
  color :: json
  timeout :: real

type_synonym http_result = "string + (int \<times> string)"
type_synonym http_service = "http_request \<Rightarrow> http_result"

datatype sender = User | Alice

datatype stream = InputStream | OutputStream

datatype session_input = Realtime bytes string | TextInput string

text \<open>The collaborators that may raise. \<open>http_post\<close> answers a request of
  \<open>client.post\<close>. \<open>send_error input end_of_turn\<close> is the text of the
  exception that \<open>session.send\<close> raises on this input, or \<open>None\<close> when the
  session accepts it. \<open>tool_callback_error name args\<close> is the text of the
  exception that the \<open>on_tool_call\<close> callback raises, or \<open>None\<close> when it
  returns.\<close>

record world =
  http_post :: http_service
  send_error :: "session_input \<Rightarrow> bool \<Rightarrow> string option"
  tool_callback_error :: "string \<Rightarrow> args option \<Rightarrow> string option"

datatype log_msg =
    LogCleared nat
  | LogOpenInputFailed string
  | LogSpeechDetected int
  | LogReadError string
  | LogReceiveError string
  | LogTool string "args option"
  | LogOpenOutputFailed string
  | LogPlaybackError string

datatype effect =
    Print log_msg
  | Sleep real
  | OnError string
  | OnTranscription sender string
  | OnToolCall string "args option"
  | OnAudioData bytes
  | SessionSend session_input bool
  | StreamOpen stream "int option"
  | StreamWrite bytes
  | StreamClose stream

subsection \<open>The state of an AudioLoop\<close>

text \<open>The four callbacks are optional: the record keeps whether each one is set.
  Both queues exist (\<open>run\<close> creates them before it starts the pipelines), so
  the test \<open>if self.out_queue\<close> of the capture loop, which asks whether the
  queue object is there, succeeds.\<close>

record audio_loop =
  on_audio_data :: bool
  on_transcription :: bool
  on_tool_call :: bool
  on_error :: bool
  input_device_index :: "int option"
  orchestrator_url :: string
  audio_in_queue :: "bytes list"
  out_queue :: "session_input list"
  paused :: bool
  stop_event :: bool
  last_input_transcription :: string
  last_output_transcription :: string
  is_speaking :: bool
  is_user_speaking :: bool
  silence_start_time :: "real option"
  effects :: "effect list"

definition emit :: "effect \<Rightarrow> audio_loop \<Rightarrow> audio_loop" where
  "emit e s = s\<lparr>effects := effects s @ [e]\<rparr>"

text \<open>\<open>AudioLoop.__init__\<close>, followed by the two assignments of \<open>run\<close> that
  create the queues.\<close>

definition init :: "bool \<Rightarrow> bool \<Rightarrow> bool \<Rightarrow> bool \<Rightarrow> int option \<Rightarrow> string \<Rightarrow> audio_loop" where
  "init cb_audio cb_transcription cb_tool cb_error device_index orch_url =
     \<lparr>on_audio_data = cb_audio, on_transcription = cb_transcription,
      on_tool_call = cb_tool, on_error = cb_error,
      input_device_index = device_index, orchestrator_url = orch_url,
      audio_in_queue = [], out_queue = [], paused = False, stop_event = False,
      last_input_transcription = [], last_output_transcription = [],
      is_speaking = False, is_user_speaking = False, silence_start_time = None,
      effects = []\<rparr>"

definition set_paused :: "bool \<Rightarrow> audio_loop \<Rightarrow> audio_loop" where
  "set_paused p s = s\<lparr>paused := p\<rparr>"

definition stop :: "audio_loop \<Rightarrow> audio_loop" where
  "stop s = s\<lparr>stop_event := True\<rparr>"

subsection \<open>clear\_audio\_queue\<close>

text \<open>The loop \<open>while not empty: get_nowait(); count += 1\<close>. \<open>get_nowait\<close> is
  called on a queue that was just seen non-empty, and nothing runs between the
  two calls, so the handler of the \<open>try\<close> is not reached.\<close>

fun drain :: "bytes list \<Rightarrow> nat \<Rightarrow> bytes list \<times> nat" where
  "drain [] count = ([], count)"
| "drain (x # q) count = drain q (count + 1)"

definition clear_audio_queue :: "audio_loop \<Rightarrow> audio_loop" where
  "clear_audio_queue s =
     (case drain (audio_in_queue s) 0 of
        (q, count) \<Rightarrow>
          if count > 0 then emit (Print (LogCleared count)) (s\<lparr>audio_in_queue := q\<rparr>)
          else s\<lparr>audio_in_queue := q\<rparr>)"

subsection \<open>Transcript diffing in receive\_audio\<close>

text \<open>\<open>t.startswith(p)\<close> and the slice \<open>t[len(p):]\<close>.\<close>

definition startswith :: "string \<Rightarrow> string \<Rightarrow> bool" where
  "startswith t p = (take (length p) t = p)"

definition transcript_delta :: "string \<Rightarrow> string \<Rightarrow> string" where
  "transcript_delta last_seen transcript =
     (if startswith transcript last_seen then drop (length last_seen) transcript
      else transcript)"

text \<open>The branch for \<open>input_transcription\<close>. A text that is \<open>None\<close> is falsy,
  like the empty text.\<close>

definition handle_input_transcription :: "transcription \<Rightarrow> audio_loop \<Rightarrow> audio_loop" where
  "handle_input_transcription tr s =
     (case tr_text tr of
        None \<Rightarrow> s
      | Some transcript \<Rightarrow>
          if transcript \<noteq> [] \<and> transcript \<noteq> last_input_transcription s then
            (let delta = transcript_delta (last_input_transcription s) transcript;
                 s1 = s\<lparr>last_input_transcription := transcript\<rparr>
             in if delta \<noteq> [] then
                  (let s2 = clear_audio_queue s1
                   in if on_transcription s2 then emit (OnTranscription User delta) s2
                      else s2)
                else s1)
          else s)"

text \<open>The branch for \<open>output_transcription\<close>.\<close>

definition handle_output_transcription :: "transcription \<Rightarrow> audio_loop \<Rightarrow> audio_loop" where
  "handle_output_transcription tr s =
     (case tr_text tr of
        None \<Rightarrow> s
      | Some transcript \<Rightarrow>
          if transcript \<noteq> [] \<and> transcript \<noteq> last_output_transcription s then
            (let delta = transcript_delta (last_output_transcription s) transcript;
                 s1 = s\<lparr>last_output_transcription := transcript\<rparr>
             in if delta \<noteq> [] then
                  (if on_transcription s1 then emit (OnTranscription Alice delta) s1
                   else s1)
                else s1)
          else s)"

subsection \<open>\_handle\_tool\_calls\<close>

definition tool_unavailable :: string where
  "tool_unavailable = ''Verktyget '' @ [CHR 0xE4] @ ''r inte tillg'' @ [CHR 0xE4] @ ''ngligt.''"

text \<open>The text of the AttributeError that \<open>fc.args.get\<close> raises when the call
  carries no arguments, and of the TypeError that \<open>for fc in function_calls\<close>
  raises when \<open>function_calls\<close> is \<open>None\<close>.\<close>

definition none_has_no_get :: string where
  "none_has_no_get =
     [CHR 0x27] @ ''NoneType'' @ [CHR 0x27] @ '' object has no attribute ''
       @ [CHR 0x27] @ ''get'' @ [CHR 0x27]"

definition none_not_iterable :: string where
  "none_not_iterable = [CHR 0x27] @ ''NoneType'' @ [CHR 0x27] @ '' object is not iterable''"

text \<open>The request that \<open>client.post\<close> sends for \<open>control_smart_home\<close>.\<close>

definition control_request :: "string \<Rightarrow> args \<Rightarrow> http_request" where
  "control_request orch_url a =
     \<lparr>url = orch_url @ ''/api/smart-home/control'',
      target = args_get a ''device'' (JStr ''''),
      action = args_get a ''action'' (JStr ''turn_on''),
      brightness = args_get a ''brightness'' JNull,
      color = args_get a ''color'' JNull,
      timeout = 10\<rparr>"

text \<open>The body of the \<open>try\<close> block: \<open>Inr\<close> is the value of \<open>result\<close> when the
  block is left normally, \<open>Inl\<close> the text of the exception that leaves it.\<close>

definition tool_try :: "http_service \<Rightarrow> string \<Rightarrow> function_call \<Rightarrow> string \<Rightarrow> string + string" where
  "tool_try post orch_url fc result =
     (if fc_name fc = ''control_smart_home'' then
        (case fc_args fc of
           None \<Rightarrow> Inl none_has_no_get
         | Some a \<Rightarrow>
             (case post (control_request orch_url a) of
                Inl e \<Rightarrow> Inl e
              | Inr (status_code, body) \<Rightarrow>
                  if status_code = 200 then
                    Inr (''Klart! Enheten har ''
                           @ py_str (args_get a ''action'' (JStr ''uppdaterats'')) @ ''.'')
                  else Inr (''Kunde inte styra enheten: '' @ body)))
      else if fc_name fc = ''web_search'' then
        (case fc_args fc of
           None \<Rightarrow> Inl none_has_no_get
         | Some a \<Rightarrow>
             Inr (''S'' @ [CHR 0xF6] @ ''ker efter: '' @ py_str (args_get a ''query'' (JStr ''''))))
      else Inr result)"

text \<open>\<open>try\<close> with its handler \<open>except Exception as e\<close>: the value of
  \<open>result\<close> after the statement.\<close>

definition tool_result :: "http_service \<Rightarrow> string \<Rightarrow> function_call \<Rightarrow> string" where
  "tool_result post orch_url fc =
     (case tool_try post orch_url fc tool_unavailable of
        Inr result \<Rightarrow> result
      | Inl e \<Rightarrow> ''Fel vid verktygsanrop: '' @ e)"

text \<open>One round of the loop \<open>for fc in function_calls\<close>. The callback and
  \<open>session.send\<close> are called outside the \<open>try\<close>: an exception of either
  leaves \<open>_handle_tool_calls\<close>. The result is the exception, if any, and the
  state reached.\<close>

definition handle_tool_call :: "world \<Rightarrow> audio_loop \<Rightarrow> function_call \<Rightarrow> string option \<times> audio_loop" where
  "handle_tool_call w s fc =
     (let s1 = emit (Print (LogTool (fc_name fc) (fc_args fc))) s
      in case (if on_tool_call s1 then tool_callback_error w (fc_name fc) (fc_args fc)
               else None) of
           Some e \<Rightarrow> (Some e, s1)
         | None \<Rightarrow>
             (let s2 = (if on_tool_call s1 then emit (OnToolCall (fc_name fc) (fc_args fc)) s1
                        else s1);
                  result = tool_result (http_post w) (orchestrator_url s2) fc;
                  reply = TextInput (''Verktygsresultat f'' @ [CHR 0xF6] @ ''r '' @ fc_name fc
                                       @ '': '' @ result)
              in case send_error w reply True of
                   Some e \<Rightarrow> (Some e, s2)
                 | None \<Rightarrow> (None, emit (SessionSend reply True) s2)))"

fun handle_tool_calls :: "world \<Rightarrow> audio_loop \<Rightarrow> function_call list \<Rightarrow> string option \<times> audio_loop" where
  "handle_tool_calls w s [] = (None, s)"
| "handle_tool_calls w s (fc # fcs) =
     (case handle_tool_call w s fc of
        (Some e, s') \<Rightarrow> (Some e, s')
      | (None, s') \<Rightarrow> handle_tool_calls w s' fcs)"

subsection \<open>receive\_audio\<close>

text \<open>The body of \<open>async for response in turn\<close>. Empty \<open>bytes\<close> are falsy, so
  \<open>if data := response.data\<close> skips them. The result is the exception that
  leaves the body, if any, and the state reached.\<close>

definition receive_response :: "world \<Rightarrow> audio_loop \<Rightarrow> live_server_message \<Rightarrow> string option \<times> audio_loop" where
  "receive_response w s response =
     (let s1 = (case data response of
                  None \<Rightarrow> s
                | Some d \<Rightarrow>
                    if d \<noteq> [] then s\<lparr>audio_in_queue := audio_in_queue s @ [d],
                                       is_speaking := True\<rparr>
                    else s);
          s2 = (case server_content response of
                  None \<Rightarrow> s1
                | Some sc \<Rightarrow>
                    (let s1a = (case input_transcription sc of
                                  None \<Rightarrow> s1
                                | Some tr \<Rightarrow> handle_input_transcription tr s1)
                     in case output_transcription sc of
                          None \<Rightarrow> s1a
                        | Some tr \<Rightarrow> handle_output_transcription tr s1a))
      in case tool_call response of
           None \<Rightarrow> (None, s2)
         | Some batch \<Rightarrow>
             (case function_calls batch of
                None \<Rightarrow> (Some none_not_iterable, s2)
              | Some fcs \<Rightarrow> handle_tool_calls w s2 fcs))"

text \<open>The events of a turn, one after the other, up to the first exception.\<close>

fun receive_events :: "world \<Rightarrow> audio_loop \<Rightarrow> live_server_message list \<Rightarrow> string option \<times> audio_loop" where
  "receive_events w s [] = (None, s)"
| "receive_events w s (response # responses) =
     (case receive_response w s response of
        (Some e, s') \<Rightarrow> (Some e, s')
      | (None, s') \<Rightarrow> receive_events w s' responses)"

text \<open>The three assignments after the inner loop.\<close>

definition turn_boundary :: "audio_loop \<Rightarrow> audio_loop" where
  "turn_boundary s =
     s\<lparr>is_speaking := False, last_input_transcription := [],
       last_output_transcription := []\<rparr>"

text \<open>The handler \<open>except Exception as e\<close> around the whole loop.\<close>

definition receive_failed :: "string \<Rightarrow> audio_loop \<Rightarrow> audio_loop" where
  "receive_failed e s =
     (let s1 = emit (Print (LogReceiveError e)) s
      in if on_error s1 then emit (OnError e) s1 else s1)"

text \<open>Where a task of \<open>run\<close> stands: opening its device, at the test of its
  loop, inside a turn (the receive task only), returned, ended by an exception
  that nothing caught, or cancelled.\<close>

datatype task = Opening | Looping | InTurn | Finished | Crashed string | Cancelled

text \<open>What the iteration over a turn delivers next: an event, or the end of the
  turn.\<close>

datatype turn_item = Event live_server_message | End turn_end

text \<open>One step inside a turn. An exception of the body or of the stream reaches
  the handler and the task returns, without the reset; the normal end of the
  turn does the reset and goes back to the test of the loop.\<close>

definition receive_item :: "world \<Rightarrow> audio_loop \<Rightarrow> turn_item \<Rightarrow> task \<times> audio_loop" where
  "receive_item w s item =
     (case item of
        Event response \<Rightarrow>
          (case receive_response w s response of
             (Some e, s') \<Rightarrow> (Finished, receive_failed e s')
           | (None, s') \<Rightarrow> (InTurn, s'))
      | End TurnComplete \<Rightarrow> (Looping, turn_boundary s)
      | End (StreamError e) \<Rightarrow> (Finished, receive_failed e s))"

text \<open>A whole turn, entered after the test of the loop: its events, then its
  end.\<close>

definition receive_turn :: "world \<Rightarrow> audio_loop \<Rightarrow> turn \<Rightarrow> task \<times> audio_loop" where
  "receive_turn w s t =
     (case t of
        (responses, ending) \<Rightarrow>
          (case receive_events w s responses of
             (Some e, s1) \<Rightarrow> (Finished, receive_failed e s1)
           | (None, s1) \<Rightarrow> receive_item w s1 (End ending)))"

text \<open>The test \<open>while not self.stop_event.is_set()\<close>, followed by
  \<open>session.receive()\<close>.\<close>

definition receive_test :: "audio_loop \<Rightarrow> task" where
  "receive_test s = (if stop_event s then Finished else InTurn)"

subsection \<open>listen\_audio\<close>

definition VAD_THRESHOLD :: int where
  "VAD_THRESHOLD = 800"

definition SILENCE_DURATION :: real where
  "SILENCE_DURATION = 1 / 2"

text \<open>\<open>struct.unpack(f"<{count}h", data)\<close>: little-endian signed 16-bit
  samples. The call raises \<open>struct.error\<close> unless the buffer has exactly
  \<open>2 * count\<close> bytes.\<close>

definition le_short :: "byte \<Rightarrow> byte \<Rightarrow> int" where
  "le_short lo hi = sint (word_cat hi lo :: 16 word)"

fun shorts_of :: "bytes \<Rightarrow> int list" where
  "shorts_of (lo # hi # rest) = le_short lo hi # shorts_of rest"
| "shorts_of _ = []"

definition unpack_shorts :: "nat \<Rightarrow> bytes \<Rightarrow> string + int list" where
  "unpack_shorts count d =
     (if length d = 2 * count then Inr (shorts_of d)
      else Inl (''unpack requires a buffer of '' @ nat_digits (2 * count) @ '' bytes''))"

text \<open>The RMS energy of a frame. \<open>int(math.sqrt(sum_squares / count))\<close> is
  modelled by its exact value, the floor of the real square root of the real
  quotient; the rounding of the floating-point operations is not modelled.\<close>

definition frame_rms :: "bytes \<Rightarrow> string + int" where
  "frame_rms d =
     (let count = length d div 2
      in if count > 0 then
           (case unpack_shorts count d of
              Inl e \<Rightarrow> Inl e
            | Inr shorts \<Rightarrow>
                (let sum_squares = sum_list (map (\<lambda>s. s ^ 2) shorts)
                 in Inr \<lfloor>sqrt (real_of_int sum_squares / real count)\<rfloor>))
         else Inr 0)"

text \<open>The float subtraction of the silence test. The exact difference is rounded
  to the nearest double, ties to even: the unit in the last place is
  \<open>2 ^ (e - 52)\<close> for the binary exponent \<open>e\<close> of the value, and never below
  that of the subnormal range. Overflow is outside the range of clock readings
  and is not modelled.\<close>

definition round_ties_even :: "real \<Rightarrow> int" where
  "round_ties_even x =
     (let f = \<lfloor>x\<rfloor>
      in if x - of_int f < 1 / 2 then f
         else if x - of_int f > 1 / 2 then f + 1
         else if even f then f else f + 1)"

definition double_exponent :: "real \<Rightarrow> int" where
  "double_exponent x = max \<lfloor>log 2 \<bar>x\<bar>\<rfloor> (- 1022)"

definition double_round :: "real \<Rightarrow> real" where
  "double_round x =
     (if x = 0 then 0
      else (let u = 2 powr (of_int (double_exponent x) - 52)
            in of_int (round_ties_even (x / u)) * u))"

definition float_sub :: "real \<Rightarrow> real \<Rightarrow> real" where
  "float_sub a b = double_round (a - b)"

text \<open>The VAD update on the RMS of a frame; \<open>now\<close> is what \<open>time.time()\<close>
  returns in this pass (it is called at most once).\<close>

definition vad_update :: "int \<Rightarrow> real \<Rightarrow> audio_loop \<Rightarrow> audio_loop" where
  "vad_update rms now s =
     (if rms > VAD_THRESHOLD then
        (let s1 = s\<lparr>silence_start_time := None\<rparr>
         in if \<not> is_user_speaking s1 then
              emit (Print (LogSpeechDetected rms)) (s1\<lparr>is_user_speaking := True\<rparr>)
            else s1)
      else if is_user_speaking s then
        (case silence_start_time s of
           None \<Rightarrow> s\<lparr>silence_start_time := Some now\<rparr>
         | Some started \<Rightarrow>
             if float_sub now started > SILENCE_DURATION then
               s\<lparr>is_user_speaking := False, silence_start_time := None\<rparr>
             else s)
      else s)"

text \<open>What one pass of the capture loop receives: the outcome of
  \<open>audio_stream.read\<close> (\<open>Inl\<close> the text of the exception) and the clock.\<close>

record capture_input =
  read_result :: "string + bytes"
  clock :: real

text \<open>The handler \<open>except Exception as e\<close> of the capture loop.\<close>

definition read_error :: "string \<Rightarrow> audio_loop \<Rightarrow> audio_loop" where
  "read_error e s = emit (Sleep (1 / 10)) (emit (Print (LogReadError e)) s)"

text \<open>The body of the capture loop. An exception of \<open>struct.unpack\<close> is raised
  after the frame was put on the outbound queue and reaches the same handler.\<close>

definition listen_iteration :: "audio_loop \<Rightarrow> capture_input \<Rightarrow> audio_loop" where
  "listen_iteration s inp =
     (if paused s then emit (Sleep (1 / 10)) s
      else
        (case read_result inp of
           Inl e \<Rightarrow> read_error e s
         | Inr d \<Rightarrow>
             if is_speaking s then s
             else
               (let s1 = s\<lparr>out_queue := out_queue s @ [Realtime d ''audio/pcm'']\<rparr>
                in case frame_rms d of
                     Inl e \<Rightarrow> read_error e s1
                   | Inr rms \<Rightarrow> vad_update rms (clock inp) s1)))"

definition listen_audio_step :: "audio_loop \<Rightarrow> capture_input \<Rightarrow> task \<times> audio_loop" where
  "listen_audio_step s inp =
     (if stop_event s then (Finished, emit (StreamClose InputStream) s)
      else (Looping, listen_iteration s inp))"

text \<open>The part of \<open>listen_audio\<close> before the loop. \<open>default_info\<close> is the
  outcome of \<open>pya.get_default_input_device_info()\<close>, whose exception nothing
  catches; \<open>open_error\<close> is the text of the OSError of \<open>pya.open\<close>, if it
  raises one.\<close>

definition listen_audio_open :: "string + int \<Rightarrow> string option \<Rightarrow> audio_loop \<Rightarrow> task \<times> audio_loop" where
  "listen_audio_open default_info open_error s =
     (case default_info of
        Inl e \<Rightarrow> (Crashed e, s)
      | Inr default_index \<Rightarrow>
          (let device_index = (case input_device_index s of
                                 None \<Rightarrow> default_index
                               | Some i \<Rightarrow> i);
               s1 = emit (StreamOpen InputStream (Some device_index)) s
           in case open_error of
                Some e \<Rightarrow>
                  (let s2 = emit (Print (LogOpenInputFailed e)) s1
                   in (Finished,
                       if on_error s2 then emit (OnError (''Microphone error: '' @ e)) s2
                       else s2))
              | None \<Rightarrow> (Looping, s1)))"
subsection \<open>send\_realtime and play\_audio\<close>

text \<open>\<open>while True\<close>: one message is taken from the outbound queue and sent.
  With nothing queued the task stays suspended in \<open>get\<close>. The loop has no
  test and no handler: it is left only by an exception of \<open>session.send\<close>,
  which ends the task, or by cancellation.\<close>

definition send_realtime_step :: "world \<Rightarrow> audio_loop \<Rightarrow> task \<times> audio_loop" where
  "send_realtime_step w s =
     (case out_queue s of
        [] \<Rightarrow> (Looping, s)
      | msg # q \<Rightarrow>
          (case send_error w msg False of
             Some e \<Rightarrow> (Crashed e, s\<lparr>out_queue := q\<rparr>)
           | None \<Rightarrow> (Looping, emit (SessionSend msg False) (s\<lparr>out_queue := q\<rparr>))))"

definition play_audio_open :: "string option \<Rightarrow> audio_loop \<Rightarrow> task \<times> audio_loop" where
  "play_audio_open open_error s =
     (let s1 = emit (StreamOpen OutputStream None) s
      in case open_error of
           Some e \<Rightarrow> (Finished, emit (Print (LogOpenOutputFailed e)) s1)
         | None \<Rightarrow> (Looping, s1))"

text \<open>The body of the playback loop; \<open>write_error\<close> is the exception of
  \<open>stream.write\<close>, if it raises one. On an empty queue \<open>wait_for\<close> times out
  after 0.1 s and the loop continues.\<close>

definition play_iteration :: "audio_loop \<Rightarrow> string option \<Rightarrow> audio_loop" where
  "play_iteration s write_error =
     (case audio_in_queue s of
        [] \<Rightarrow> s
      | d # q \<Rightarrow>
          (let s1 = s\<lparr>audio_in_queue := q\<rparr>
           in case write_error of
                Some e \<Rightarrow> emit (Print (LogPlaybackError e)) s1
              | None \<Rightarrow>
                  (let s2 = emit (StreamWrite d) s1
                   in if on_audio_data s2 then emit (OnAudioData d) s2 else s2)))"

definition play_audio_step :: "audio_loop \<Rightarrow> string option \<Rightarrow> task \<times> audio_loop" where
  "play_audio_step s write_error =
     (if stop_event s then (Finished, emit (StreamClose OutputStream) s)
      else (Looping, play_iteration s write_error))"

subsection \<open>The four tasks of run, interleaved\<close>

text \<open>\<open>run\<close> starts the four pipelines as tasks of one group. The engine is the
  AudioLoop together with where each task stands. An event is a call of the
  controller, the cancellation of \<open>run\<close>, or one step of one task; a step of a
  task that is not at that point changes nothing. A pass of the capture, send and
  playback loops is one step, taken at its loop test. The receive task is
  stepped event by event: its loop test is a step of its own, taken only between
  turns, and each event or end of the turn is a further step. Steps are atomic:
  what runs while a task is suspended inside a step is ordered before or after
  it.\<close>

record engine =
  loop :: audio_loop
  send_task :: task
  listen_task :: task
  receive_task :: task
  play_task :: task

definition start_tasks :: "audio_loop \<Rightarrow> engine" where
  "start_tasks s =
     \<lparr>loop = s, send_task = Looping, listen_task = Opening, receive_task = Looping,
      play_task = Opening\<rparr>"

text \<open>Cancellation reaches a task that is still running; it is raised inside the
  task's current \<open>await\<close> and nothing of the task runs after it (the streams are
  closed after the loops, not in a \<open>finally\<close>).\<close>

definition cancel_task :: "task \<Rightarrow> task" where
  "cancel_task t = (if t = Opening \<or> t = Looping \<or> t = InTurn then Cancelled else t)"

definition cancel_all :: "engine \<Rightarrow> engine" where
  "cancel_all e =
     e\<lparr>send_task := cancel_task (send_task e), listen_task := cancel_task (listen_task e),
       receive_task := cancel_task (receive_task e), play_task := cancel_task (play_task e)\<rparr>"

definition crashed :: "task \<Rightarrow> bool" where
  "crashed t = (case t of Crashed e \<Rightarrow> True | _ \<Rightarrow> False)"

text \<open>The task group: when a task ends by an exception, the group cancels the
  tasks that are still running.\<close>

definition task_group :: "engine \<Rightarrow> engine" where
  "task_group e =
     (if crashed (send_task e) \<or> crashed (listen_task e) \<or> crashed (receive_task e)
         \<or> crashed (play_task e)
      then cancel_all e else e)"

datatype engine_event =
    CallSetPaused bool
  | CallStop
  | CallClearAudioQueue
  | CancelRun
  | SendPass
  | ListenOpen "string + int" "string option"
  | ListenPass capture_input
  | ReceiveTest
  | ReceiveItem turn_item
  | PlayOpen "string option"
  | PlayPass "string option"

fun task_step :: "world \<Rightarrow> engine \<Rightarrow> engine_event \<Rightarrow> engine" where
  "task_step w e (CallSetPaused p) = e\<lparr>loop := set_paused p (loop e)\<rparr>"
| "task_step w e CallStop = e\<lparr>loop := stop (loop e)\<rparr>"
| "task_step w e CallClearAudioQueue = e\<lparr>loop := clear_audio_queue (loop e)\<rparr>"
| "task_step w e CancelRun = cancel_all e"
| "task_step w e SendPass =
     (if send_task e = Looping then
        (case send_realtime_step w (loop e) of (t, s) \<Rightarrow> e\<lparr>loop := s, send_task := t\<rparr>)
      else e)"
| "task_step w e (ListenOpen default_info open_error) =
     (if listen_task e = Opening then
        (case listen_audio_open default_info open_error (loop e) of
           (t, s) \<Rightarrow> e\<lparr>loop := s, listen_task := t\<rparr>)
      else e)"
| "task_step w e (ListenPass inp) =
     (if listen_task e = Looping then
        (case listen_audio_step (loop e) inp of (t, s) \<Rightarrow> e\<lparr>loop := s, listen_task := t\<rparr>)
      else e)"
| "task_step w e ReceiveTest =
     (if receive_task e = Looping then e\<lparr>receive_task := receive_test (loop e)\<rparr> else e)"
| "task_step w e (ReceiveItem item) =
     (if receive_task e = InTurn then
        (case receive_item w (loop e) item of (t, s) \<Rightarrow> e\<lparr>loop := s, receive_task := t\<rparr>)
      else e)"
| "task_step w e (PlayOpen open_error) =
     (if play_task e = Opening then
        (case play_audio_open open_error (loop e) of (t, s) \<Rightarrow> e\<lparr>loop := s, play_task := t\<rparr>)
      else e)"
| "task_step w e (PlayPass write_error) =
     (if play_task e = Looping then
        (case play_audio_step (loop e) write_error of
           (t, s) \<Rightarrow> e\<lparr>loop := s, play_task := t\<rparr>)
      else e)"

definition engine_step :: "world \<Rightarrow> engine \<Rightarrow> engine_event \<Rightarrow> engine" where
  "engine_step w e ev = task_group (task_step w e ev)"


subsection \<open>Observations used by the properties\<close>

text \<open>The transcription events among the effects, in order.\<close>

fun transcriptions :: "effect list \<Rightarrow> (sender \<times> string) list" where
  "transcriptions [] = []"
| "transcriptions (OnTranscription who delta # es) = (who, delta) # transcriptions es"
| "transcriptions (e # es) = transcriptions es"


text \<open>The messages handed to the error callback, in order.\<close>

fun error_reports :: "effect list \<Rightarrow> string list" where
  "error_reports [] = []"
| "error_reports (OnError msg # es) = msg # error_reports es"
| "error_reports (e # es) = error_reports es"

text \<open>The deltas of the transcription events of one sender.\<close>

definition deltas_of :: "sender \<Rightarrow> effect list \<Rightarrow> string list" where
  "deltas_of who es = map snd (filter (\<lambda>p. fst p = who) (transcriptions es))"

definition has_audio :: "live_server_message \<Rightarrow> bool" where
  "has_audio response = (case data response of None \<Rightarrow> False | Some d \<Rightarrow> d \<noteq> [])"

definition has_output_transcription :: "live_server_message \<Rightarrow> bool" where
  "has_output_transcription response =
     (case server_content response of
        None \<Rightarrow> False
      | Some sc \<Rightarrow> output_transcription sc \<noteq> None)"

text \<open>The RMS energy of a frame as the specification means it: the real root
  mean square of the samples, not truncated to an integer.\<close>

definition rms_energy :: "bytes \<Rightarrow> real" where
  "rms_energy d =
     sqrt (real_of_int (sum_list (map (\<lambda>s. s ^ 2) (shorts_of d))) / real (length d div 2))"

text \<open>A pass of the capture loop is loud when it read a frame whose computed
  RMS is above the threshold.\<close>

definition loud :: "capture_input \<Rightarrow> bool" where
  "loud inp =
     (case read_result inp of
        Inl e \<Rightarrow> False
      | Inr d \<Rightarrow> (case frame_rms d of Inl e \<Rightarrow> False | Inr rms \<Rightarrow> rms > VAD_THRESHOLD))"

text \<open>Consecutive passes of the capture loop's body.\<close>

definition listen_run :: "audio_loop \<Rightarrow> capture_input list \<Rightarrow> audio_loop" where
  "listen_run s inps = foldl listen_iteration s inps"

subsection \<open>Concrete inputs\<close>

definition demo_loop :: audio_loop where
  "demo_loop = init True True True True None ''http://localhost:8000''"

definition refusing_service :: http_service where
  "refusing_service request = Inl ''All connection attempts failed''"


text \<open>A world whose session accepts every input and whose callback returns.\<close>

definition accepting :: "http_service \<Rightarrow> world" where
  "accepting service =
     \<lparr>http_post = service, send_error = (\<lambda>i eot. None),
      tool_callback_error = (\<lambda>name a. None)\<rparr>"



definition transcript_event :: "string option \<Rightarrow> string option \<Rightarrow> live_server_message" where
  "transcript_event user_text model_text =
     \<lparr>data = None,
      server_content =
        Some \<lparr>input_transcription = map_option (\<lambda>t. Transcription (Some t)) user_text,
              output_transcription = map_option (\<lambda>t. Transcription (Some t)) model_text\<rparr>,
      tool_call = None\<rparr>"

definition audio_event :: "bytes \<Rightarrow> live_server_message" where
  "audio_event d = \<lparr>data = Some d, server_content = None, tool_call = None\<rparr>"

definition tool_event :: "function_call list \<Rightarrow> live_server_message" where
  "tool_event fcs = \<lparr>data = None, server_content = None, tool_call = Some (ToolCall (Some fcs))\<rparr>"

definition three_frames :: "bytes list" where
  "three_frames = [[1, 2], [3, 4], [5, 6]]"

definition failed_read :: capture_input where
  "failed_read = \<lparr>read_result = Inl ''Input overflowed'', clock = 0\<rparr>"

text \<open>Frames of one sample 1000, of one sample 100, and of the two samples 800
  and 801.\<close>

definition loud_frame :: bytes where
  "loud_frame = [0xE8, 0x03]"

definition quiet_frame :: bytes where
  "quiet_frame = [0x64, 0x00]"

definition near_threshold_frame :: bytes where
  "near_threshold_frame = [0x20, 0x03, 0x21, 0x03]"

definition speech_then_silence :: "capture_input list" where
  "speech_then_silence =
     [\<lparr>read_result = Inr loud_frame, clock = 0\<rparr>,
      \<lparr>read_result = Inr quiet_frame, clock = 1\<rparr>,
      \<lparr>read_result = Inr quiet_frame, clock = 5 / 4\<rparr>]"





definition hej :: string where "hej = ''hej''"
definition nej :: string where "nej = ''nej''"
definition hej_dar :: string where "hej_dar = ''hej d'' @ [CHR 0xE4] @ ''r''"
definition dar :: string where "dar = '' d'' @ [CHR 0xE4] @ ''r''"

section \<open>Properties\<close>

subsection \<open>What the receive pipeline leaves untouched\<close>

lemma drain_empties: "fst (drain q count) = []"
  by (induction q arbitrary: count) auto

lemma clear_audio_queue_empty: "audio_in_queue (clear_audio_queue s) = []"
  using drain_empties [of "audio_in_queue s" 0]
  by (auto simp: clear_audio_queue_def emit_def split: prod.splits)

lemma handle_tool_call_frame:
  "(snd (handle_tool_call w s fc))\<lparr>effects := es\<rparr> = s\<lparr>effects := es\<rparr>"
  by (simp add: handle_tool_call_def emit_def Let_def split: option.splits)

lemma handle_tool_calls_frame:
  "(snd (handle_tool_calls w s fcs))\<lparr>effects := es\<rparr> = s\<lparr>effects := es\<rparr>"
proof (induction fcs arbitrary: s)
  case Nil
  show ?case by simp
next
  case (Cons fc fcs)
  obtain x s' where step: "handle_tool_call w s fc = (x, s')" by (cases "handle_tool_call w s fc")
  have s': "s'\<lparr>effects := es\<rparr> = s\<lparr>effects := es\<rparr>"
    using handle_tool_call_frame [where w=w and s=s and fc=fc and es=es] step by simp
  show ?case using step s' Cons.IH [of s'] by (cases x) simp_all
qed

lemma handle_tool_calls_fields:
  "audio_in_queue (snd (handle_tool_calls w s fcs)) = audio_in_queue s"
  "is_speaking (snd (handle_tool_calls w s fcs)) = is_speaking s"
  "last_input_transcription (snd (handle_tool_calls w s fcs)) = last_input_transcription s"
  "last_output_transcription (snd (handle_tool_calls w s fcs)) = last_output_transcription s"
  "on_transcription (snd (handle_tool_calls w s fcs)) = on_transcription s"
  "stop_event (snd (handle_tool_calls w s fcs)) = stop_event s"
  "orchestrator_url (snd (handle_tool_calls w s fcs)) = orchestrator_url s"
  using arg_cong [OF handle_tool_calls_frame [where w=w and s=s and fcs=fcs and es="[]"],
      of audio_in_queue]
    arg_cong [OF handle_tool_calls_frame [where w=w and s=s and fcs=fcs and es="[]"],
      of is_speaking]
    arg_cong [OF handle_tool_calls_frame [where w=w and s=s and fcs=fcs and es="[]"],
      of last_input_transcription]
    arg_cong [OF handle_tool_calls_frame [where w=w and s=s and fcs=fcs and es="[]"],
      of last_output_transcription]
    arg_cong [OF handle_tool_calls_frame [where w=w and s=s and fcs=fcs and es="[]"],
      of on_transcription]
    arg_cong [OF handle_tool_calls_frame [where w=w and s=s and fcs=fcs and es="[]"],
      of stop_event]
    arg_cong [OF handle_tool_calls_frame [where w=w and s=s and fcs=fcs and es="[]"],
      of orchestrator_url]
  by simp_all

lemma delta_nonempty:
  "transcript \<noteq> [] \<Longrightarrow> transcript \<noteq> last_seen \<Longrightarrow>
   transcript_delta last_seen transcript \<noteq> []"
  unfolding transcript_delta_def startswith_def
  by (metis append_take_drop_id append_Nil2)

lemma handle_output_transcription_fields:
  "audio_in_queue (handle_output_transcription tr s) = audio_in_queue s"
  "is_speaking (handle_output_transcription tr s) = is_speaking s"
  "last_input_transcription (handle_output_transcription tr s) = last_input_transcription s"
  "on_transcription (handle_output_transcription tr s) = on_transcription s"
  "stop_event (handle_output_transcription tr s) = stop_event s"
  by (simp_all add: handle_output_transcription_def emit_def Let_def split: option.splits)

lemma handle_input_transcription_fields:
  "is_speaking (handle_input_transcription tr s) = is_speaking s"
  "last_output_transcription (handle_input_transcription tr s) = last_output_transcription s"
  "on_transcription (handle_input_transcription tr s) = on_transcription s"
  "stop_event (handle_input_transcription tr s) = stop_event s"
  by (simp_all add: handle_input_transcription_def clear_audio_queue_def emit_def Let_def
        split: option.splits prod.splits)

lemma handle_input_transcription_clears:
  "tr_text tr = Some transcript \<Longrightarrow> transcript \<noteq> [] \<Longrightarrow>
   transcript \<noteq> last_input_transcription s \<Longrightarrow>
   audio_in_queue (handle_input_transcription tr s) = []"
  using delta_nonempty [of transcript "last_input_transcription s"]
  by (simp add: handle_input_transcription_def Let_def emit_def clear_audio_queue_empty)

subsection \<open>Interruption\<close>

text \<open>
  Claim C1. An event of the receive pipeline carries an input transcription
  whose text is non-empty and differs from the stored one: these are the events
  for which a delta is computed, and the delta is then non-empty. After the
  event is processed the inbound queue \<open>audio_in_queue\<close> is empty, whatever it
  held before, also when the same event carries audio (the audio is queued
  before the transcription is handled) or tool calls, and also when the handling
  of the tool calls ends by an exception.
\<close>

theorem interruption_empties_inbound_queue:
  assumes "server_content response = Some sc"
    and "input_transcription sc = Some tr"
    and "tr_text tr = Some transcript"
    and "transcript \<noteq> []"
    and "transcript \<noteq> last_input_transcription s"
  shows "transcript_delta (last_input_transcription s) transcript \<noteq> [] \<and>
         audio_in_queue (snd (receive_response w s response)) = []"
proof -
  define s1 where "s1 =
    (case data response of
       None \<Rightarrow> s
     | Some d \<Rightarrow>
         if d \<noteq> [] then s\<lparr>audio_in_queue := audio_in_queue s @ [d], is_speaking := True\<rparr>
         else s)"
  have last: "last_input_transcription s1 = last_input_transcription s"
    by (simp add: s1_def split: option.splits)
  have cleared: "audio_in_queue (handle_input_transcription tr s1) = []"
    using assms last by (simp add: handle_input_transcription_clears)
  have "audio_in_queue (snd (receive_response w s response)) = []"
    using assms(1,2) cleared
    by (simp add: receive_response_def Let_def s1_def [symmetric] handle_tool_calls_fields
          handle_output_transcription_fields split: option.splits)
  then show ?thesis using assms delta_nonempty by simp
qed

theorem interruption_empties_inbound_queue_witness:
  "length (audio_in_queue (demo_loop\<lparr>audio_in_queue := three_frames\<rparr>)) = 3 \<and>
   transcript_delta (last_input_transcription (demo_loop\<lparr>audio_in_queue := three_frames\<rparr>)) hej
     = hej \<and>
   audio_in_queue (snd (receive_response (accepting refusing_service)
     (demo_loop\<lparr>audio_in_queue := three_frames\<rparr>) (transcript_event (Some hej) None))) = []"
  using interruption_empties_inbound_queue
    [of "transcript_event (Some hej) None"
        "\<lparr>input_transcription = Some (Transcription (Some hej)), output_transcription = None\<rparr>"
        "Transcription (Some hej)" hej "demo_loop\<lparr>audio_in_queue := three_frames\<rparr>"
        "accepting refusing_service"]
  by (simp add: transcript_event_def hej_def demo_loop_def init_def three_frames_def
        transcript_delta_def startswith_def)

subsection \<open>The speaking flag under interruption\<close>

lemma transcriptions_append:
  "transcriptions (xs @ ys) = transcriptions xs @ transcriptions ys"
  by (induction xs rule: transcriptions.induct) simp_all

lemma deltas_of_append: "deltas_of who (xs @ ys) = deltas_of who xs @ deltas_of who ys"
  by (simp add: deltas_of_def transcriptions_append)

lemma receive_response_is_speaking:
  "is_speaking (snd (receive_response w s response)) = (is_speaking s \<or> has_audio response)"
  by (auto simp: receive_response_def Let_def has_audio_def handle_tool_calls_fields
        handle_output_transcription_fields handle_input_transcription_fields
      split: option.splits)

lemma receive_turn_complete:
  "receive_turn w s (responses, TurnComplete) =
     (case receive_events w s responses of
        (Some e, s1) \<Rightarrow> (Finished, receive_failed e s1)
      | (None, s1) \<Rightarrow> (Looping, turn_boundary s1))"
  by (simp add: receive_turn_def receive_item_def split: prod.splits option.splits)

text \<open>
  Claim C2, as amended. The claim says that an input-transcription event with a
  non-empty delta leaves \<open>is_speaking\<close> false. The interruption only calls
  \<open>clear_audio_queue\<close>, which does not assign the flag; the flag is reset at
  the turn boundary alone. After such an event the flag is true exactly when it
  was true before or the event itself carried audio; neither the transcription
  branch nor \<open>clear_audio_queue\<close> changes it, and it is false once the turn
  that contains the event has reached its boundary (which it does unless an
  exception ends the receive loop first).
\<close>

theorem interruption_keeps_speaking_flag:
  assumes "server_content response = Some sc"
    and "input_transcription sc = Some tr"
    and "tr_text tr = Some transcript"
    and "transcript \<noteq> []"
    and "transcript \<noteq> last_input_transcription s"
  shows "is_speaking (snd (receive_response w s response)) = (is_speaking s \<or> has_audio response) \<and>
         is_speaking (handle_input_transcription tr s) = is_speaking s \<and>
         is_speaking (clear_audio_queue s) = is_speaking s \<and>
         (fst (receive_turn w s (before @ [response], TurnComplete)) = Looping \<longrightarrow>
            \<not> is_speaking (snd (receive_turn w s (before @ [response], TurnComplete)))) \<and>
         (fst (receive_events w s (before @ [response])) = None \<longrightarrow>
            fst (receive_turn w s (before @ [response], TurnComplete)) = Looping)"
proof -
  have event: "is_speaking (snd (receive_response w s response)) = (is_speaking s \<or> has_audio response)"
    by (rule receive_response_is_speaking)
  have branch: "is_speaking (handle_input_transcription tr s) = is_speaking s"
    by (simp add: handle_input_transcription_fields)
  have clear: "is_speaking (clear_audio_queue s) = is_speaking s"
    by (simp add: clear_audio_queue_def emit_def split: prod.splits)
  have boundary: "fst (receive_turn w s (before @ [response], TurnComplete)) = Looping \<longrightarrow>
      \<not> is_speaking (snd (receive_turn w s (before @ [response], TurnComplete)))"
    by (simp add: receive_turn_complete turn_boundary_def split: prod.splits option.splits)
  have reached: "fst (receive_events w s (before @ [response])) = None \<longrightarrow>
      fst (receive_turn w s (before @ [response], TurnComplete)) = Looping"
    by (simp add: receive_turn_complete split: prod.splits option.splits)
  show ?thesis using event branch clear boundary reached by blast
qed

theorem interruption_keeps_speaking_flag_witness:
  "is_speaking (snd (receive_response (accepting refusing_service) demo_loop
      \<lparr>data = Some [1, 2],
       server_content = Some \<lparr>input_transcription = Some (Transcription (Some hej)),
                              output_transcription = None\<rparr>,
       tool_call = None\<rparr>)) \<and>
   \<not> is_speaking (snd (receive_response (accepting refusing_service) demo_loop
      (transcript_event (Some hej) None))) \<and>
   receive_turn (accepting refusing_service) (demo_loop\<lparr>is_speaking := True\<rparr>)
      ([] @ [transcript_event (Some hej) None], TurnComplete) =
     (Looping, demo_loop\<lparr>effects := [OnTranscription User hej]\<rparr>)"
proof -
  let ?sc = "\<lparr>input_transcription = Some (Transcription (Some hej)), output_transcription = None\<rparr>"
  have one: "is_speaking (snd (receive_response (accepting refusing_service) demo_loop
      \<lparr>data = Some [1, 2], server_content = Some ?sc, tool_call = None\<rparr>))"
    using interruption_keeps_speaking_flag [of "\<lparr>data = Some [1, 2],
        server_content = Some ?sc, tool_call = None\<rparr>" ?sc
        "Transcription (Some hej)" hej demo_loop "accepting refusing_service" "[]"]
    by (simp add: has_audio_def hej_def demo_loop_def init_def)
  have two: "\<not> is_speaking (snd (receive_response (accepting refusing_service) demo_loop
      (transcript_event (Some hej) None)))"
    using interruption_keeps_speaking_flag [of "transcript_event (Some hej) None" ?sc
        "Transcription (Some hej)" hej demo_loop "accepting refusing_service" "[]"]
    by (simp add: has_audio_def hej_def demo_loop_def init_def transcript_event_def)
  have three: "receive_turn (accepting refusing_service) (demo_loop\<lparr>is_speaking := True\<rparr>)
      ([] @ [transcript_event (Some hej) None], TurnComplete) =
     (Looping, demo_loop\<lparr>effects := [OnTranscription User hej]\<rparr>)"
    by (simp add: receive_turn_complete receive_response_def handle_input_transcription_def
          clear_audio_queue_def transcript_delta_def startswith_def turn_boundary_def emit_def
          transcript_event_def hej_def demo_loop_def init_def Let_def)
  show ?thesis using one two three by blast
qed

text \<open>
  Claim C2 as stated fails: with the flag set and the user saying \<open>hej\<close>
  (non-empty delta), the flag is still set after the event.
\<close>

theorem interruption_does_not_reset_speaking_flag:
  "hej \<noteq> [] \<and> hej \<noteq> last_input_transcription (demo_loop\<lparr>is_speaking := True\<rparr>) \<and>
   transcript_delta (last_input_transcription (demo_loop\<lparr>is_speaking := True\<rparr>)) hej = hej \<and>
   is_speaking (snd (receive_response (accepting refusing_service) (demo_loop\<lparr>is_speaking := True\<rparr>)
     (transcript_event (Some hej) None)))"
  by (simp add: receive_response_is_speaking hej_def demo_loop_def init_def
        transcript_delta_def startswith_def)

subsection \<open>Transcript diffing\<close>

lemma clear_audio_queue_transcriptions:
  "transcriptions (effects (clear_audio_queue s)) = transcriptions (effects s)"
  by (simp add: clear_audio_queue_def emit_def transcriptions_append split: prod.splits)

lemma clear_audio_queue_fields:
  "last_input_transcription (clear_audio_queue s) = last_input_transcription s"
  "on_transcription (clear_audio_queue s) = on_transcription s"
  by (simp_all add: clear_audio_queue_def emit_def split: prod.splits)

lemma input_unchanged:
  "new = [] \<or> new = last_input_transcription s \<Longrightarrow>
   handle_input_transcription (Transcription (Some new)) s = s"
  by (auto simp: handle_input_transcription_def)

lemma output_unchanged:
  "new = [] \<or> new = last_output_transcription s \<Longrightarrow>
   handle_output_transcription (Transcription (Some new)) s = s"
  by (auto simp: handle_output_transcription_def)

lemma input_emits:
  assumes "on_transcription s" "new \<noteq> []" "new \<noteq> last_input_transcription s"
  shows "transcriptions (effects (handle_input_transcription (Transcription (Some new)) s)) =
           transcriptions (effects s) @ [(User, transcript_delta (last_input_transcription s) new)]"
    and "last_input_transcription (handle_input_transcription (Transcription (Some new)) s) = new"
  using assms delta_nonempty [of new "last_input_transcription s"]
  by (simp_all add: handle_input_transcription_def Let_def emit_def transcriptions_append
        clear_audio_queue_transcriptions clear_audio_queue_fields)

lemma output_emits:
  assumes "on_transcription s" "new \<noteq> []" "new \<noteq> last_output_transcription s"
  shows "transcriptions (effects (handle_output_transcription (Transcription (Some new)) s)) =
           transcriptions (effects s) @ [(Alice, transcript_delta (last_output_transcription s) new)]"
    and "last_output_transcription (handle_output_transcription (Transcription (Some new)) s) = new"
  using assms delta_nonempty [of new "last_output_transcription s"]
  by (simp_all add: handle_output_transcription_def Let_def emit_def transcriptions_append)

lemma delta_examples:
  "transcript_delta [] hej = hej" "transcript_delta hej hej_dar = dar"
  "transcript_delta hej nej = nej"
  by (simp_all add: transcript_delta_def startswith_def hej_def hej_dar_def dar_def nej_def)

lemma examples_distinct: "hej \<noteq> []" "hej_dar \<noteq> []" "nej \<noteq> []" "hej_dar \<noteq> hej" "nej \<noteq> hej"
  by (simp_all add: hej_def hej_dar_def nej_def)

lemma input_two:
  assumes "on_transcription s" "last_input_transcription s = []" "b \<noteq> []" "b \<noteq> a" "a \<noteq> []"
  shows "transcriptions (effects (handle_input_transcription (Transcription (Some b))
            (handle_input_transcription (Transcription (Some a)) s))) =
         transcriptions (effects s) @ [(User, transcript_delta [] a), (User, transcript_delta a b)]"
proof -
  let ?s1 = "handle_input_transcription (Transcription (Some a)) s"
  have 1: "transcriptions (effects ?s1) = transcriptions (effects s) @ [(User, transcript_delta [] a)]"
    and 2: "last_input_transcription ?s1 = a"
    using input_emits [of s a] assms by simp_all
  have 3: "on_transcription ?s1" using assms by (simp add: handle_input_transcription_fields)
  show ?thesis using input_emits(1) [of ?s1 b] 1 2 3 assms by simp
qed

lemma output_two:
  assumes "on_transcription s" "last_output_transcription s = []" "b \<noteq> []" "b \<noteq> a" "a \<noteq> []"
  shows "transcriptions (effects (handle_output_transcription (Transcription (Some b))
            (handle_output_transcription (Transcription (Some a)) s))) =
         transcriptions (effects s) @ [(Alice, transcript_delta [] a), (Alice, transcript_delta a b)]"
proof -
  let ?s1 = "handle_output_transcription (Transcription (Some a)) s"
  have 1: "transcriptions (effects ?s1) = transcriptions (effects s) @ [(Alice, transcript_delta [] a)]"
    and 2: "last_output_transcription ?s1 = a"
    using output_emits [of s a] assms by simp_all
  have 3: "on_transcription ?s1" using assms by (simp add: handle_output_transcription_fields)
  show ?thesis using output_emits(1) [of ?s1 b] 1 2 3 assms by simp
qed

text \<open>
  Claim C3, as amended. With a transcription callback registered, for a
  transcription event of either direction with text \<open>new\<close>: when \<open>new\<close> is
  empty or equal to the stored text, nothing changes and no event is emitted;
  otherwise exactly one transcription event is emitted, tagged with the
  direction's sender, whose delta is \<open>new\<close> without the stored prefix when
  \<open>new\<close> starts with the stored text and the whole of \<open>new\<close> when it does
  not, and the stored text becomes \<open>new\<close>. Starting from an empty stored text,
  the transcripts \<open>hej\<close>, \<open>hej_dar\<close> emit \<open>hej\<close> and \<open>dar\<close>, and \<open>hej\<close>,
  \<open>nej\<close> emit \<open>hej\<close> and \<open>nej\<close>. (An empty \<open>new\<close> leaves the stored text as
  it was: it is not overwritten with the empty text.)
\<close>

theorem transcript_diffing:
  assumes "on_transcription s"
  shows
   "(new = [] \<or> new = last_input_transcription s \<longrightarrow>
       handle_input_transcription (Transcription (Some new)) s = s) \<and>
    (new = [] \<or> new = last_output_transcription s \<longrightarrow>
       handle_output_transcription (Transcription (Some new)) s = s) \<and>
    (new \<noteq> [] \<and> new \<noteq> last_input_transcription s \<longrightarrow>
       transcriptions (effects (handle_input_transcription (Transcription (Some new)) s)) =
         transcriptions (effects s) @ [(User, transcript_delta (last_input_transcription s) new)] \<and>
       last_input_transcription (handle_input_transcription (Transcription (Some new)) s) = new) \<and>
    (new \<noteq> [] \<and> new \<noteq> last_output_transcription s \<longrightarrow>
       transcriptions (effects (handle_output_transcription (Transcription (Some new)) s)) =
         transcriptions (effects s) @ [(Alice, transcript_delta (last_output_transcription s) new)] \<and>
       last_output_transcription (handle_output_transcription (Transcription (Some new)) s) = new) \<and>
    (startswith new seen \<longrightarrow> transcript_delta seen new = drop (length seen) new) \<and>
    (\<not> startswith new seen \<longrightarrow> transcript_delta seen new = new) \<and>
    (last_input_transcription s = [] \<longrightarrow>
       transcriptions (effects (handle_input_transcription (Transcription (Some hej_dar))
          (handle_input_transcription (Transcription (Some hej)) s))) =
         transcriptions (effects s) @ [(User, hej), (User, dar)] \<and>
       transcriptions (effects (handle_input_transcription (Transcription (Some nej))
          (handle_input_transcription (Transcription (Some hej)) s))) =
         transcriptions (effects s) @ [(User, hej), (User, nej)]) \<and>
    (last_output_transcription s = [] \<longrightarrow>
       transcriptions (effects (handle_output_transcription (Transcription (Some hej_dar))
          (handle_output_transcription (Transcription (Some hej)) s))) =
         transcriptions (effects s) @ [(Alice, hej), (Alice, dar)] \<and>
       transcriptions (effects (handle_output_transcription (Transcription (Some nej))
          (handle_output_transcription (Transcription (Some hej)) s))) =
         transcriptions (effects s) @ [(Alice, hej), (Alice, nej)])"
proof -
  have a: "new = [] \<or> new = last_input_transcription s \<longrightarrow>
       handle_input_transcription (Transcription (Some new)) s = s"
    using input_unchanged by blast
  have b: "new = [] \<or> new = last_output_transcription s \<longrightarrow>
       handle_output_transcription (Transcription (Some new)) s = s"
    using output_unchanged by blast
  have c: "new \<noteq> [] \<and> new \<noteq> last_input_transcription s \<longrightarrow>
       transcriptions (effects (handle_input_transcription (Transcription (Some new)) s)) =
         transcriptions (effects s) @ [(User, transcript_delta (last_input_transcription s) new)] \<and>
       last_input_transcription (handle_input_transcription (Transcription (Some new)) s) = new"
    using input_emits [OF assms] by blast
  have d: "new \<noteq> [] \<and> new \<noteq> last_output_transcription s \<longrightarrow>
       transcriptions (effects (handle_output_transcription (Transcription (Some new)) s)) =
         transcriptions (effects s) @ [(Alice, transcript_delta (last_output_transcription s) new)] \<and>
       last_output_transcription (handle_output_transcription (Transcription (Some new)) s) = new"
    using output_emits [OF assms] by blast
  have e: "(startswith new seen \<longrightarrow> transcript_delta seen new = drop (length seen) new) \<and>
    (\<not> startswith new seen \<longrightarrow> transcript_delta seen new = new)"
    by (simp add: transcript_delta_def)
  have f: "last_input_transcription s = [] \<longrightarrow>
       transcriptions (effects (handle_input_transcription (Transcription (Some hej_dar))
          (handle_input_transcription (Transcription (Some hej)) s))) =
         transcriptions (effects s) @ [(User, hej), (User, dar)] \<and>
       transcriptions (effects (handle_input_transcription (Transcription (Some nej))
          (handle_input_transcription (Transcription (Some hej)) s))) =
         transcriptions (effects s) @ [(User, hej), (User, nej)]"
    using input_two [OF assms, of hej_dar hej] input_two [OF assms, of nej hej]
    by (simp add: delta_examples examples_distinct)
  have g: "last_output_transcription s = [] \<longrightarrow>
       transcriptions (effects (handle_output_transcription (Transcription (Some hej_dar))
          (handle_output_transcription (Transcription (Some hej)) s))) =
         transcriptions (effects s) @ [(Alice, hej), (Alice, dar)] \<and>
       transcriptions (effects (handle_output_transcription (Transcription (Some nej))
          (handle_output_transcription (Transcription (Some hej)) s))) =
         transcriptions (effects s) @ [(Alice, hej), (Alice, nej)]"
    using output_two [OF assms, of hej_dar hej] output_two [OF assms, of nej hej]
    by (simp add: delta_examples examples_distinct)
  show ?thesis using a b c d e f g by blast
qed

theorem transcript_diffing_witness:
  "on_transcription demo_loop \<and>
   handle_output_transcription (Transcription (Some [])) demo_loop = demo_loop \<and>
   transcriptions (effects (handle_input_transcription (Transcription (Some hej)) demo_loop)) =
     [(User, hej)] \<and>
   last_input_transcription (handle_input_transcription (Transcription (Some hej)) demo_loop) = hej \<and>
   transcriptions (effects (handle_output_transcription (Transcription (Some hej_dar))
      (handle_output_transcription (Transcription (Some hej)) demo_loop))) =
     [(Alice, hej), (Alice, dar)] \<and>
   transcriptions (effects (handle_output_transcription (Transcription (Some nej))
      (handle_output_transcription (Transcription (Some hej)) demo_loop))) =
     [(Alice, hej), (Alice, nej)]"
proof -
  have cb: "on_transcription demo_loop" by (simp add: demo_loop_def init_def)
  have none: "last_input_transcription demo_loop = []" "last_output_transcription demo_loop = []"
    "effects demo_loop = []"
    by (simp_all add: demo_loop_def init_def)
  show ?thesis
    using transcript_diffing [OF cb, of hej "[]"] transcript_diffing [OF cb, of "[]" "[]"] cb none
    by (simp add: delta_examples examples_distinct)
qed

text \<open>
  Claim C3 as stated fails in its last sentence: after an event whose text is
  empty the stored text is still \<open>hej\<close>, not the event's text.
\<close>

theorem empty_transcript_keeps_stored_text:
  "hej \<noteq> [] \<and>
   last_input_transcription (handle_input_transcription (Transcription (Some []))
     (demo_loop\<lparr>last_input_transcription := hej\<rparr>)) = hej \<and>
   last_output_transcription (handle_output_transcription (Transcription (Some []))
     (demo_loop\<lparr>last_output_transcription := hej\<rparr>)) = hej"
  by (simp add: handle_input_transcription_def handle_output_transcription_def hej_def)


subsection \<open>Turn boundary\<close>

lemma handle_tool_calls_transcriptions:
  "transcriptions (effects (snd (handle_tool_calls w s fcs))) = transcriptions (effects s)"
proof (induction fcs arbitrary: s)
  case Nil
  show ?case by simp
next
  case (Cons fc fcs)
  obtain x s' where step: "handle_tool_call w s fc = (x, s')" by (cases "handle_tool_call w s fc")
  have "transcriptions (effects (snd (handle_tool_call w s fc))) = transcriptions (effects s)"
    by (simp add: handle_tool_call_def emit_def Let_def transcriptions_append
          split: option.splits)
  then have s': "transcriptions (effects s') = transcriptions (effects s)" using step by simp
  show ?case using step s' Cons.IH [of s'] by (cases x) simp_all
qed

lemma handle_input_transcription_deltas:
  "deltas_of Alice (effects (handle_input_transcription tr s)) = deltas_of Alice (effects s)"
  by (simp add: handle_input_transcription_def Let_def emit_def deltas_of_def
        transcriptions_append clear_audio_queue_transcriptions split: option.splits)

lemma receive_response_on_transcription:
  "on_transcription (snd (receive_response w s response)) = on_transcription s"
  by (simp add: receive_response_def Let_def handle_tool_calls_fields
        handle_output_transcription_fields handle_input_transcription_fields
      split: option.splits)

lemma handle_tool_calls_deltas:
  "deltas_of who (effects (snd (handle_tool_calls w s fcs))) = deltas_of who (effects s)"
  by (simp add: deltas_of_def handle_tool_calls_transcriptions)

lemma receive_response_no_output:
  assumes "\<not> has_output_transcription response"
  shows "last_output_transcription (snd (receive_response w s response)) =
      last_output_transcription s"
    and "deltas_of Alice (effects (snd (receive_response w s response))) =
      deltas_of Alice (effects s)"
proof -
  have out: "output_transcription sc = None" if "server_content response = Some sc" for sc
    using assms that by (simp add: has_output_transcription_def)
  show "last_output_transcription (snd (receive_response w s response)) =
      last_output_transcription s"
    using out
    by (auto simp: receive_response_def Let_def handle_tool_calls_fields
          handle_input_transcription_fields split: option.splits)
  show "deltas_of Alice (effects (snd (receive_response w s response))) =
      deltas_of Alice (effects s)"
    using out
    by (auto simp: receive_response_def Let_def handle_tool_calls_deltas
          handle_input_transcription_deltas split: option.splits)
qed

lemma receive_events_no_output:
  assumes "\<forall>m \<in> set before. \<not> has_output_transcription m"
  shows "last_output_transcription (snd (receive_events w s before)) = last_output_transcription s
    \<and> deltas_of Alice (effects (snd (receive_events w s before))) = deltas_of Alice (effects s)
    \<and> on_transcription (snd (receive_events w s before)) = on_transcription s"
  using assms
proof (induction before arbitrary: s)
  case Nil
  show ?case by simp
next
  case (Cons m before)
  have m: "\<not> has_output_transcription m" using Cons.prems by simp
  obtain x s' where step: "receive_response w s m = (x, s')" by (cases "receive_response w s m")
  have s': "last_output_transcription s' = last_output_transcription s"
    "deltas_of Alice (effects s') = deltas_of Alice (effects s)"
    "on_transcription s' = on_transcription s"
    using receive_response_no_output [OF m, of w s] receive_response_on_transcription [of w s m]
      step by simp_all
  show ?case using step s' Cons.IH [of s'] Cons.prems by (cases x) simp_all
qed

lemma receive_response_first_output:
  assumes "server_content r = Some sc"
    and "output_transcription sc = Some (Transcription (Some transcript))"
    and "last_output_transcription s = []" and "on_transcription s" and "transcript \<noteq> []"
  shows "deltas_of Alice (effects (snd (receive_response w s r))) =
    deltas_of Alice (effects s) @ [transcript]"
proof -
  define s1 where "s1 =
    (case data r of
       None \<Rightarrow> s
     | Some d \<Rightarrow>
         if d \<noteq> [] then s\<lparr>audio_in_queue := audio_in_queue s @ [d], is_speaking := True\<rparr>
         else s)"
  define s1a where "s1a =
    (case input_transcription sc of None \<Rightarrow> s1 | Some tr \<Rightarrow> handle_input_transcription tr s1)"
  have s1: "last_output_transcription s1 = []" "on_transcription s1" "effects s1 = effects s"
    using assms by (simp_all add: s1_def split: option.splits)
  have s1a: "last_output_transcription s1a = []" "on_transcription s1a"
    "deltas_of Alice (effects s1a) = deltas_of Alice (effects s)"
    using s1 by (simp_all add: s1a_def handle_input_transcription_fields
        handle_input_transcription_deltas split: option.splits)
  have out: "deltas_of Alice (effects (handle_output_transcription (Transcription (Some transcript)) s1a))
      = deltas_of Alice (effects s) @ [transcript]"
    using s1a assms(5)
    by (simp add: handle_output_transcription_def Let_def emit_def deltas_of_def
          transcriptions_append transcript_delta_def startswith_def)
  define s2 where "s2 = handle_output_transcription (Transcription (Some transcript)) s1a"
  have rr: "snd (receive_response w s r) =
      (case tool_call r of
         None \<Rightarrow> s2
       | Some batch \<Rightarrow>
           (case function_calls batch of
              None \<Rightarrow> s2
            | Some fcs \<Rightarrow> snd (handle_tool_calls w s2 fcs)))"
    using assms(1,2)
    by (simp add: receive_response_def Let_def s2_def s1a_def s1_def split: option.splits)
  show ?thesis
    using out by (simp add: rr s2_def [symmetric] handle_tool_calls_deltas split: option.splits)
qed

text \<open>
  Claim C4. A turn reaches its boundary when it ends normally, with any events
  or with none (an empty turn always does; a turn with events does unless an
  exception raised while an event is handled ends the receive loop). At the
  boundary the receive loop goes on, \<open>is_speaking\<close> is false and both stored
  transcripts are empty. Hence for the first event of the next turn that carries
  an output transcription, the delta computed is its full text, and with a
  transcription callback registered and a non-empty text that full text is the
  one delta emitted for Alice since the boundary.
\<close>

theorem turn_boundary_resets:
  assumes "receive_turn w s (responses, TurnComplete) = (t, s')"
  shows "(t = Looping \<longleftrightarrow> fst (receive_events w s responses) = None) \<and>
    receive_turn w s ([], TurnComplete) = (Looping, turn_boundary s) \<and>
    (t = Looping \<longrightarrow>
       \<not> is_speaking s' \<and> last_input_transcription s' = [] \<and>
       last_output_transcription s' = [] \<and>
       ((\<forall>m \<in> set before. \<not> has_output_transcription m) \<and>
         receive_events w s' before = (None, s'') \<and> server_content r = Some sc \<and>
         output_transcription sc = Some (Transcription (Some transcript)) \<longrightarrow>
          transcript_delta (last_output_transcription s'') transcript = transcript \<and>
          (on_transcription s' \<and> transcript \<noteq> [] \<longrightarrow>
             deltas_of Alice (effects (snd (receive_response w s'' r))) =
               deltas_of Alice (effects s') @ [transcript])))"
proof -
  have reached: "t = Looping \<longleftrightarrow> fst (receive_events w s responses) = None"
    using assms by (auto simp: receive_turn_complete split: prod.splits option.splits)
  have empty: "receive_turn w s ([], TurnComplete) = (Looping, turn_boundary s)"
    by (simp add: receive_turn_complete)
  have after: "\<not> is_speaking s' \<and> last_input_transcription s' = [] \<and>
       last_output_transcription s' = [] \<and>
       ((\<forall>m \<in> set before. \<not> has_output_transcription m) \<and>
         receive_events w s' before = (None, s'') \<and> server_content r = Some sc \<and>
         output_transcription sc = Some (Transcription (Some transcript)) \<longrightarrow>
          transcript_delta (last_output_transcription s'') transcript = transcript \<and>
          (on_transcription s' \<and> transcript \<noteq> [] \<longrightarrow>
             deltas_of Alice (effects (snd (receive_response w s'' r))) =
               deltas_of Alice (effects s') @ [transcript]))"
    if t: "t = Looping"
  proof -
    obtain s1 where s': "s' = turn_boundary s1"
      using assms t by (auto simp: receive_turn_complete split: prod.splits option.splits)
    have reset: "\<not> is_speaking s'" "last_input_transcription s' = []"
      "last_output_transcription s' = []"
      by (simp_all add: s' turn_boundary_def)
    have next_turn: "transcript_delta (last_output_transcription s'') transcript = transcript \<and>
          (on_transcription s' \<and> transcript \<noteq> [] \<longrightarrow>
             deltas_of Alice (effects (snd (receive_response w s'' r))) =
               deltas_of Alice (effects s') @ [transcript])"
      if before: "\<forall>m \<in> set before. \<not> has_output_transcription m"
        and run: "receive_events w s' before = (None, s'')"
        and r: "server_content r = Some sc"
          "output_transcription sc = Some (Transcription (Some transcript))"
    proof -
      have pre: "last_output_transcription s'' = []"
        "deltas_of Alice (effects s'') = deltas_of Alice (effects s')"
        "on_transcription s'' = on_transcription s'"
        using receive_events_no_output [OF before, of w s'] run reset by simp_all
      have delta: "transcript_delta (last_output_transcription s'') transcript = transcript"
        by (simp add: pre transcript_delta_def startswith_def)
      have emitted: "deltas_of Alice (effects (snd (receive_response w s'' r))) =
              deltas_of Alice (effects s') @ [transcript]"
        if "on_transcription s'" "transcript \<noteq> []"
        using receive_response_first_output [OF r pre(1), of w] pre that by simp
      show ?thesis using delta emitted by blast
    qed
    show ?thesis using reset next_turn by blast
  qed
  show ?thesis using reached empty after by blast
qed

theorem turn_boundary_resets_witness:
  "receive_turn (accepting refusing_service)
      (demo_loop\<lparr>is_speaking := True, last_output_transcription := hej\<rparr>)
      ([], TurnComplete) = (Looping, demo_loop) \<and>
   receive_events (accepting refusing_service) demo_loop [audio_event [1, 2]] =
     (None, demo_loop\<lparr>audio_in_queue := [[1, 2]], is_speaking := True\<rparr>) \<and>
   transcript_delta (last_output_transcription
      (demo_loop\<lparr>audio_in_queue := [[1, 2]], is_speaking := True\<rparr>)) hej_dar = hej_dar \<and>
   deltas_of Alice (effects (snd (receive_response (accepting refusing_service)
      (demo_loop\<lparr>audio_in_queue := [[1, 2]], is_speaking := True\<rparr>)
      (transcript_event None (Some hej_dar))))) =
     deltas_of Alice (effects demo_loop) @ [hej_dar]"
proof -
  let ?w = "accepting refusing_service"
  let ?s'' = "demo_loop\<lparr>audio_in_queue := [[1, 2]], is_speaking := True\<rparr>"
  let ?sc = "\<lparr>input_transcription = None,
              output_transcription = Some (Transcription (Some hej_dar))\<rparr>"
  have turn: "receive_turn ?w (demo_loop\<lparr>is_speaking := True, last_output_transcription := hej\<rparr>)
      ([], TurnComplete) = (Looping, demo_loop)"
    by (simp add: receive_turn_complete turn_boundary_def demo_loop_def init_def)
  have run: "receive_events ?w demo_loop [audio_event [1, 2]] = (None, ?s'')"
    by (simp add: receive_response_def audio_event_def demo_loop_def init_def)
  have hyps: "(\<forall>m \<in> set [audio_event [1, 2]]. \<not> has_output_transcription m) \<and>
      receive_events ?w demo_loop [audio_event [1, 2]] = (None, ?s'') \<and>
      server_content (transcript_event None (Some hej_dar)) = Some ?sc \<and>
      output_transcription ?sc = Some (Transcription (Some hej_dar))"
    using run by (simp add: has_output_transcription_def audio_event_def transcript_event_def)
  have cb: "on_transcription demo_loop \<and> hej_dar \<noteq> []"
    by (simp add: demo_loop_def init_def hej_dar_def)
  have "(\<forall>m \<in> set [audio_event [1, 2]]. \<not> has_output_transcription m) \<and>
         receive_events ?w demo_loop [audio_event [1, 2]] = (None, ?s'') \<and>
         server_content (transcript_event None (Some hej_dar)) = Some ?sc \<and>
         output_transcription ?sc = Some (Transcription (Some hej_dar)) \<longrightarrow>
          transcript_delta (last_output_transcription ?s'') hej_dar = hej_dar \<and>
          (on_transcription demo_loop \<and> hej_dar \<noteq> [] \<longrightarrow>
             deltas_of Alice (effects (snd (receive_response ?w ?s''
                (transcript_event None (Some hej_dar))))) =
               deltas_of Alice (effects demo_loop) @ [hej_dar])"
    using turn_boundary_resets [OF turn, of "[audio_event [1, 2]]" ?s''
        "transcript_event None (Some hej_dar)" ?sc hej_dar]
    by blast
  then show ?thesis using turn run hyps cb by blast
qed

subsection \<open>Rounding of the float subtraction\<close>

lemma round_ties_even_le:
  assumes "x \<le> of_int n"
  shows "round_ties_even x \<le> n"
proof -
  have f: "\<lfloor>x\<rfloor> \<le> n" using assms by (simp add: floor_le_iff)
  have up: "\<lfloor>x\<rfloor> + 1 \<le> n" if "x - of_int \<lfloor>x\<rfloor> \<ge> 1 / 2"
  proof -
    have "of_int \<lfloor>x\<rfloor> < x" using that by linarith
    then have "(of_int \<lfloor>x\<rfloor> :: real) < of_int n" using assms by linarith
    then show ?thesis by simp
  qed
  show ?thesis
    using f up by (auto simp: round_ties_even_def Let_def)
qed

lemma round_ties_even_of_int: "round_ties_even (of_int k) = k"
  by (simp add: round_ties_even_def)

lemma double_round_le_half:
  assumes "x \<le> 1 / 2"
  shows "double_round x \<le> 1 / 2"
proof (cases "x \<le> 0")
  case True
  show ?thesis
  proof (cases "x = 0")
    case True
    then show ?thesis by (simp add: double_round_def)
  next
    case False
    define u :: real where "u = 2 powr (of_int (double_exponent x) - 52)"
    have u: "u > 0" by (simp add: u_def)
    have "x / u \<le> of_int 0" using True u by (simp add: divide_nonpos_pos)
    then have "round_ties_even (x / u) \<le> 0" by (rule round_ties_even_le)
    then have "of_int (round_ties_even (x / u)) * u \<le> 0"
      using u by (simp add: mult_nonpos_nonneg)
    then show ?thesis using False by (simp add: double_round_def Let_def u_def)
  qed
next
  case False
  then have pos: "x > 0" by simp
  define e where "e = double_exponent x"
  define u :: real where "u = 2 powr (of_int e - 52)"
  define n where "n = nat (51 - e)"
  have u: "u > 0" by (simp add: u_def)
  have "log 2 x \<le> log 2 (1 / 2)" using pos assms by (subst log_le_cancel_iff) simp_all
  also have "log 2 (1 / 2) = - 1" by (simp add: log_divide)
  finally have "\<lfloor>log 2 x\<rfloor> \<le> - 1" by (simp add: floor_le_iff)
  then have e: "e \<le> - 1" using pos by (simp add: e_def double_exponent_def)
  have "(1 / 2) / u = 2 powr (- 1) / 2 powr (of_int e - 52)"
    by (simp add: u_def powr_minus)
  also have "\<dots> = 2 powr (- 1 - (of_int e - 52))" by (simp add: powr_diff)
  also have "- 1 - (of_int e - 52) = real n" using e by (simp add: n_def)
  also have "2 powr (real n) = (2::real) ^ n" by (simp add: powr_realpow)
  finally have half: "(1 / 2) / u = of_int (2 ^ n)" by simp
  have "x / u \<le> (1 / 2) / u" using assms u by (intro divide_right_mono) simp_all
  then have "x / u \<le> of_int (2 ^ n)" using half by simp
  then have "round_ties_even (x / u) \<le> 2 ^ n" by (rule round_ties_even_le)
  then have "(of_int (round_ties_even (x / u)) :: real) \<le> of_int (2 ^ n)" by linarith
  then have "of_int (round_ties_even (x / u)) * u \<le> of_int (2 ^ n) * u"
    using u by (simp add: mult_right_mono)
  also have "of_int (2 ^ n) * u = 1 / 2" using half u by (simp add: field_simps)
  finally show ?thesis using pos by (simp add: double_round_def Let_def u_def e_def)
qed

lemma float_sub_gt_half: "float_sub a b > 1 / 2 \<Longrightarrow> a - b > 1 / 2"
  using double_round_le_half [of "a - b"] by (auto simp: float_sub_def not_le [symmetric])

lemma double_round_one: "double_round 1 = 1"
proof -
  have e: "double_exponent 1 = 0" by (simp add: double_exponent_def)
  have u: "(1::real) / 2 powr (- 52) = of_int (2 ^ 52)"
    by (simp add: powr_minus powr_numeral divide_simps)
  have "round_ties_even (1 / 2 powr (- 52)) = 2 ^ 52"
    unfolding u by (rule round_ties_even_of_int)
  then show ?thesis
    by (simp add: double_round_def e powr_minus)
qed
subsection \<open>Voice activity detection\<close>

lemma le_short_values:
  "le_short 0xE8 0x03 = 1000" "le_short 0x64 0x00 = 100"
  "le_short 0x20 0x03 = 800" "le_short 0x21 0x03 = 801"
  by code_simp+

lemma sqrt_values: "sqrt 1000000 = 1000" "sqrt 10000 = 100"
  by (rule real_sqrt_unique; simp)+

lemma frame_rms_loud: "frame_rms loud_frame = Inr 1000"
  by (simp add: frame_rms_def unpack_shorts_def loud_frame_def le_short_values sqrt_values)

lemma frame_rms_quiet: "frame_rms quiet_frame = Inr 100"
  by (simp add: frame_rms_def unpack_shorts_def quiet_frame_def le_short_values sqrt_values)

lemma rms_energy_near: "rms_energy near_threshold_frame = sqrt (1281601 / 2)"
  by (simp add: rms_energy_def near_threshold_frame_def le_short_values)

lemma sqrt_near: "800 < sqrt (1281601 / 2)" "sqrt (1281601 / 2) < 801"
  by (rule real_less_rsqrt, simp) (rule real_less_lsqrt, simp_all)

lemma frame_rms_floor:
  assumes "even (length d)" and "2 \<le> length d"
  shows "frame_rms d = Inr \<lfloor>rms_energy d\<rfloor>"
proof -
  have "length d div 2 > 0" using assms by presburger
  moreover have "unpack_shorts (length d div 2) d = Inr (shorts_of d)"
    using assms(1) by (auto simp: unpack_shorts_def)
  ultimately show ?thesis by (simp add: frame_rms_def rms_energy_def Let_def)
qed

lemma frame_rms_near: "frame_rms near_threshold_frame = Inr 800"
proof -
  have "frame_rms near_threshold_frame = Inr \<lfloor>rms_energy near_threshold_frame\<rfloor>"
    by (rule frame_rms_floor) (simp_all add: near_threshold_frame_def)
  moreover have "\<lfloor>sqrt (1281601 / 2)\<rfloor> = 800"
    using sqrt_near by (simp add: floor_eq_iff)
  ultimately show ?thesis by (simp add: rms_energy_near)
qed

lemma loud_iff:
  assumes "read_result inp = Inr d" and "even (length d)" and "2 \<le> length d"
  shows "loud inp \<longleftrightarrow> 801 \<le> rms_energy d"
proof -
  have "loud inp \<longleftrightarrow> 800 < \<lfloor>rms_energy d\<rfloor>"
    using assms by (simp add: loud_def frame_rms_floor VAD_THRESHOLD_def)
  also have "\<dots> \<longleftrightarrow> 801 \<le> \<lfloor>rms_energy d\<rfloor>" by linarith
  also have "\<dots> \<longleftrightarrow> 801 \<le> rms_energy d" by (simp add: le_floor_iff)
  finally show ?thesis .
qed

lemma vad_loud:
  "rms > VAD_THRESHOLD \<Longrightarrow>
   is_user_speaking (vad_update rms now s) \<and> silence_start_time (vad_update rms now s) = None"
  by (simp add: vad_update_def Let_def emit_def)

lemma vad_hold:
  assumes "is_user_speaking s" and "rms \<le> VAD_THRESHOLD"
    and "\<forall>started. silence_start_time s = Some started \<longrightarrow> now - started \<le> SILENCE_DURATION"
  shows "is_user_speaking (vad_update rms now s)"
proof (cases "silence_start_time s")
  case None
  then show ?thesis using assms by (simp add: vad_update_def)
next
  case (Some started)
  then have "now - started \<le> 1 / 2" using assms(3) by (simp add: SILENCE_DURATION_def)
  then have "\<not> float_sub now started > SILENCE_DURATION"
    using float_sub_gt_half [of now started] by (auto simp: SILENCE_DURATION_def)
  then show ?thesis using assms Some by (simp add: vad_update_def)
qed

lemma vad_flip:
  assumes "is_user_speaking s" and "\<not> is_user_speaking (vad_update rms now s)"
  shows "rms \<le> VAD_THRESHOLD \<and>
   (\<exists>started. silence_start_time s = Some started \<and> now - started > SILENCE_DURATION)"
proof -
  have q: "rms \<le> VAD_THRESHOLD"
    using assms by (auto simp: vad_update_def Let_def emit_def split: if_splits)
  obtain started where st: "silence_start_time s = Some started"
    using assms q by (cases "silence_start_time s") (auto simp: vad_update_def)
  have "float_sub now started > SILENCE_DURATION"
    using assms q st by (auto simp: vad_update_def split: if_splits)
  then have "now - started > SILENCE_DURATION"
    using float_sub_gt_half [of now started] by (simp add: SILENCE_DURATION_def)
  then show ?thesis using q st by blast
qed

lemma vad_update_flags:
  "paused (vad_update rms now s) = paused s" "is_speaking (vad_update rms now s) = is_speaking s"
  by (simp_all add: vad_update_def emit_def Let_def split: option.splits)

lemma listen_iteration_flags:
  "paused (listen_iteration s inp) = paused s"
  "is_speaking (listen_iteration s inp) = is_speaking s"
  by (simp_all add: listen_iteration_def read_error_def emit_def Let_def vad_update_flags
        split: sum.splits)

lemma listen_processed:
  assumes "\<not> paused s" and "\<not> is_speaking s" and "read_result inp = Inr d"
    and "frame_rms d = Inr rms"
  shows "listen_iteration s inp =
    vad_update rms (clock inp) (s\<lparr>out_queue := out_queue s @ [Realtime d ''audio/pcm'']\<rparr>)"
  using assms by (simp add: listen_iteration_def Let_def)

lemma vad_update_out_queue:
  "is_user_speaking (vad_update rms now (s\<lparr>out_queue := q\<rparr>)) = is_user_speaking (vad_update rms now s)"
  "silence_start_time (vad_update rms now (s\<lparr>out_queue := q\<rparr>)) =
     silence_start_time (vad_update rms now s)"
  by (simp_all add: vad_update_def emit_def Let_def split: option.splits)

lemma listen_vad:
  assumes "\<not> paused s" and "\<not> is_speaking s"
  shows "(\<not> loud inp \<and> is_user_speaking (listen_iteration s inp) = is_user_speaking s \<and>
      silence_start_time (listen_iteration s inp) = silence_start_time s) \<or>
   (\<exists>d rms. read_result inp = Inr d \<and> frame_rms d = Inr rms \<and>
      is_user_speaking (listen_iteration s inp) = is_user_speaking (vad_update rms (clock inp) s) \<and>
      silence_start_time (listen_iteration s inp) = silence_start_time (vad_update rms (clock inp) s))"
proof (cases "read_result inp")
  case (Inl e)
  then show ?thesis
    using assms by (simp add: listen_iteration_def read_error_def emit_def loud_def)
next
  case (Inr d)
  show ?thesis
  proof (cases "frame_rms d")
    case (Inl e)
    then show ?thesis
      using assms Inr by (simp add: listen_iteration_def read_error_def emit_def loud_def Let_def)
  next
    case rms: (Inr rms)
    show ?thesis
      using listen_processed [OF assms Inr rms] Inr rms by (simp add: vad_update_out_queue)
  qed
qed

lemma vad_timer:
  assumes "silence_start_time (vad_update rms now s) = Some started"
  shows "rms \<le> VAD_THRESHOLD \<and>
    (silence_start_time s = Some started \<or> (silence_start_time s = None \<and> started = now))"
  using assms
  by (auto simp: vad_update_def Let_def emit_def split: if_splits option.splits)

lemma listen_run_snoc: "listen_run s (inps @ [inp]) = listen_iteration (listen_run s inps) inp"
  by (simp add: listen_run_def)

lemma listen_run_flags:
  "paused (listen_run s inps) = paused s \<and> is_speaking (listen_run s inps) = is_speaking s"
  by (induction inps rule: rev_induct) (simp_all add: listen_run_snoc listen_iteration_flags listen_run_def)

lemma listen_run_timer:
  assumes "\<not> paused s0" and "\<not> is_speaking s0" and "silence_start_time s0 = None"
  shows "silence_start_time (listen_run s0 inps) = Some started \<Longrightarrow>
    \<exists>before silent. inps = before @ silent \<and> silent \<noteq> [] \<and>
      (\<forall>p \<in> set silent. \<not> loud p) \<and> clock (hd silent) = started"
proof (induction inps arbitrary: started rule: rev_induct)
  case Nil
  then show ?case using assms by (simp add: listen_run_def)
next
  case (snoc inp inps)
  let ?s = "listen_run s0 inps"
  have flags: "\<not> paused ?s" "\<not> is_speaking ?s"
    using assms listen_run_flags [of s0 inps] by simp_all
  have after: "silence_start_time (listen_iteration ?s inp) = Some started"
    using snoc.prems by (simp add: listen_run_snoc)
  have extend: "\<exists>before silent. inps @ [inp] = before @ silent \<and> silent \<noteq> [] \<and>
      (\<forall>p \<in> set silent. \<not> loud p) \<and> clock (hd silent) = started"
    if quiet: "\<not> loud inp" and old: "silence_start_time ?s = Some started"
  proof -
    obtain before silent where split: "inps = before @ silent" "silent \<noteq> []"
        "\<forall>p \<in> set silent. \<not> loud p" "clock (hd silent) = started"
      using snoc.IH [OF old] by blast
    have "inps @ [inp] = before @ (silent @ [inp]) \<and> silent @ [inp] \<noteq> [] \<and>
        (\<forall>p \<in> set (silent @ [inp]). \<not> loud p) \<and> clock (hd (silent @ [inp])) = started"
      using split quiet by simp
    then show ?thesis by blast
  qed
  from listen_vad [OF flags, of inp] show ?case
  proof (elim disjE conjE exE)
    assume "\<not> loud inp" and "silence_start_time (listen_iteration ?s inp) = silence_start_time ?s"
    then show ?thesis using extend after by simp
  next
    fix d rms
    assume r: "read_result inp = Inr d" "frame_rms d = Inr rms"
      and t: "silence_start_time (listen_iteration ?s inp) =
        silence_start_time (vad_update rms (clock inp) ?s)"
    have v: "silence_start_time (vad_update rms (clock inp) ?s) = Some started"
      using after t by simp
    have quiet: "\<not> loud inp"
      using vad_timer [OF v] r by (simp add: loud_def)
    show ?thesis
    proof (cases "silence_start_time ?s")
      case None
      then have "started = clock inp" using vad_timer [OF v] by simp
      then have "inps @ [inp] = inps @ [inp] \<and> [inp] \<noteq> [] \<and>
          (\<forall>p \<in> set [inp]. \<not> loud p) \<and> clock (hd [inp]) = started"
        using quiet by simp
      then show ?thesis by blast
    next
      case (Some t0)
      then have "silence_start_time ?s = Some started" using vad_timer [OF v] by simp
      then show ?thesis using extend quiet by simp
    qed
  qed
qed

lemma listen_flip:
  assumes "\<not> paused s" and "\<not> is_speaking s"
    and "is_user_speaking s" and "\<not> is_user_speaking (listen_iteration s inp)"
  shows "\<not> loud inp \<and>
    (\<exists>started. silence_start_time s = Some started \<and> clock inp - started > SILENCE_DURATION)"
proof -
  from listen_vad [OF assms(1,2), of inp] show ?thesis
  proof (elim disjE conjE exE)
    assume "is_user_speaking (listen_iteration s inp) = is_user_speaking s"
    then show ?thesis using assms by simp
  next
    fix d rms
    assume r: "read_result inp = Inr d" "frame_rms d = Inr rms"
      and f: "is_user_speaking (listen_iteration s inp) =
        is_user_speaking (vad_update rms (clock inp) s)"
    have "\<not> is_user_speaking (vad_update rms (clock inp) s)" using assms(4) f by simp
    from vad_flip [OF assms(3) this] r show ?thesis by (auto simp: loud_def)
  qed
qed

lemma listen_run_flip:
  assumes "\<not> paused s0" and "\<not> is_speaking s0" and "silence_start_time s0 = None"
    and "is_user_speaking (listen_run s0 inps)"
    and "\<not> is_user_speaking (listen_run s0 (inps @ [inp]))"
  shows "\<not> loud inp \<and>
    (\<exists>before silent. inps = before @ silent \<and> silent \<noteq> [] \<and>
      (\<forall>p \<in> set silent. \<not> loud p) \<and> clock inp - clock (hd silent) > SILENCE_DURATION)"
proof -
  let ?s = "listen_run s0 inps"
  have flags: "\<not> paused ?s" "\<not> is_speaking ?s"
    using assms listen_run_flags [of s0 inps] by simp_all
  have "\<not> is_user_speaking (listen_iteration ?s inp)"
    using assms(5) by (simp add: listen_run_snoc)
  from listen_flip [OF flags assms(4) this]
  obtain started where q: "\<not> loud inp" and st: "silence_start_time ?s = Some started"
    and long: "clock inp - started > SILENCE_DURATION"
    by blast
  from listen_run_timer [OF assms(1,2,3) st] long q show ?thesis by blast
qed

lemma listen_skipped:
  assumes "paused s \<or> is_speaking s"
  shows "is_user_speaking (listen_iteration s inp) = is_user_speaking s \<and>
    silence_start_time (listen_iteration s inp) = silence_start_time s"
  using assms
  by (auto simp: listen_iteration_def read_error_def emit_def split: sum.splits)

lemma listen_run_skipped:
  assumes "paused s \<or> is_speaking s"
  shows "is_user_speaking (listen_run s inps) = is_user_speaking s"
proof (induction inps rule: rev_induct)
  case Nil
  show ?case by (simp add: listen_run_def)
next
  case (snoc inp inps)
  have "paused (listen_run s inps) \<or> is_speaking (listen_run s inps)"
    using assms listen_run_flags [of s inps] by simp
  from listen_skipped [OF this, of inp] snoc show ?case by (simp add: listen_run_snoc)
qed

lemma listen_hold:
  assumes "is_user_speaking s" and "\<not> loud inp"
    and "\<forall>started. silence_start_time s = Some started \<longrightarrow>
      clock inp - started \<le> SILENCE_DURATION"
  shows "is_user_speaking (listen_iteration s inp)"
proof (cases "paused s \<or> is_speaking s")
  case True
  from listen_skipped [OF this, of inp] assms(1) show ?thesis by simp
next
  case False
  then have flags: "\<not> paused s" "\<not> is_speaking s" by simp_all
  from listen_vad [OF flags, of inp] show ?thesis
  proof (elim disjE conjE exE)
    assume "is_user_speaking (listen_iteration s inp) = is_user_speaking s"
    then show ?thesis using assms(1) by simp
  next
    fix d rms
    assume r: "read_result inp = Inr d" "frame_rms d = Inr rms"
      and f: "is_user_speaking (listen_iteration s inp) =
        is_user_speaking (vad_update rms (clock inp) s)"
    have "rms \<le> VAD_THRESHOLD" using assms(2) r by (simp add: loud_def)
    from vad_hold [OF assms(1) this assms(3)] f show ?thesis by simp
  qed
qed

lemma listen_loud:
  assumes "\<not> paused s" and "\<not> is_speaking s" and "read_result inp = Inr d"
    and "frame_rms d = Inr rms" and "rms > VAD_THRESHOLD"
  shows "is_user_speaking (listen_iteration s inp) \<and>
    silence_start_time (listen_iteration s inp) = None"
  using listen_processed [OF assms(1-4)] vad_loud [OF assms(5)] by simp

lemma listen_flip_any:
  assumes "is_user_speaking s" and "\<not> is_user_speaking (listen_iteration s inp)"
  shows "\<not> loud inp \<and>
    (\<exists>started. silence_start_time s = Some started \<and> clock inp - started > SILENCE_DURATION)"
proof (cases "paused s \<or> is_speaking s")
  case True
  from listen_skipped [OF this, of inp] assms show ?thesis by simp
next
  case False
  then show ?thesis using listen_flip [of s inp] assms by simp
qed

lemma listen_run_flip_any:
  assumes "silence_start_time s = None"
    and "is_user_speaking (listen_run s inps)"
    and "\<not> is_user_speaking (listen_run s (inps @ [inp]))"
  shows "\<not> loud inp \<and>
    (\<exists>before silent. inps = before @ silent \<and> silent \<noteq> [] \<and>
      (\<forall>p \<in> set silent. \<not> loud p) \<and> clock inp - clock (hd silent) > SILENCE_DURATION)"
proof (cases "paused s \<or> is_speaking s")
  case True
  from listen_run_skipped [OF this, of inps] listen_run_skipped [OF this, of "inps @ [inp]"] assms
  show ?thesis by simp
next
  case False
  then show ?thesis using listen_run_flip [of s inps inp] assms by simp
qed

text \<open>
  Claim C5, as amended. The threshold (800) is compared with the RMS truncated to
  an integer, so a pass is loud when the RMS of its frame is at least 801, not
  when it is above 800. For a pass of the capture loop that processes its frame
  (not paused, not echo-suppressed, frame read and unpacked): a loud frame sets
  \<open>is_user_speaking\<close> and clears the silence timer. While the user is
  speaking, a pass that is not loud keeps \<open>is_user_speaking\<close> true when the
  timer is not running or has run for at most the silence duration (0.5 s). The
  flag falls only on a pass that is not loud with the timer running for at least
  the silence duration. Over a sequence of passes from a state with the timer
  off, the flag falls only at the end of an unbroken run of passes that are not
  loud, the first of which was made at least the silence duration before.
\<close>

theorem vad_hysteresis:
  "(\<not> paused s \<and> \<not> is_speaking s \<and> read_result inp = Inr d \<and> frame_rms d = Inr rms \<and>
      rms > VAD_THRESHOLD \<longrightarrow>
      is_user_speaking (listen_iteration s inp) \<and>
      silence_start_time (listen_iteration s inp) = None) \<and>
   (read_result inp = Inr d \<and> even (length d) \<and> 2 \<le> length d \<longrightarrow>
      frame_rms d = Inr \<lfloor>rms_energy d\<rfloor> \<and> (loud inp \<longleftrightarrow> 801 \<le> rms_energy d)) \<and>
   (is_user_speaking s \<and> \<not> loud inp \<and>
      (\<forall>started. silence_start_time s = Some started \<longrightarrow>
         clock inp - started \<le> SILENCE_DURATION) \<longrightarrow>
      is_user_speaking (listen_iteration s inp)) \<and>
   (is_user_speaking s \<and> \<not> is_user_speaking (listen_iteration s inp) \<longrightarrow>
      \<not> loud inp \<and>
      (\<exists>started. silence_start_time s = Some started \<and>
         clock inp - started \<ge> SILENCE_DURATION)) \<and>
   (silence_start_time s = None \<and> is_user_speaking (listen_run s inps) \<and>
      \<not> is_user_speaking (listen_run s (inps @ [inp])) \<longrightarrow>
      \<not> loud inp \<and>
      (\<exists>before silent. inps = before @ silent \<and> silent \<noteq> [] \<and>
         (\<forall>p \<in> set silent. \<not> loud p) \<and>
         clock inp - clock (hd silent) \<ge> SILENCE_DURATION)) \<and>
   VAD_THRESHOLD = 800 \<and> SILENCE_DURATION = 1 / 2"
proof -
  have a: "\<not> paused s \<and> \<not> is_speaking s \<and> read_result inp = Inr d \<and> frame_rms d = Inr rms \<and>
      rms > VAD_THRESHOLD \<longrightarrow>
      is_user_speaking (listen_iteration s inp) \<and>
      silence_start_time (listen_iteration s inp) = None"
    using listen_loud [of s inp d rms] by blast
  have b: "read_result inp = Inr d \<and> even (length d) \<and> 2 \<le> length d \<longrightarrow>
      frame_rms d = Inr \<lfloor>rms_energy d\<rfloor> \<and> (loud inp \<longleftrightarrow> 801 \<le> rms_energy d)"
    using frame_rms_floor [of d] loud_iff [of inp d] by blast
  have c: "is_user_speaking s \<and> \<not> loud inp \<and>
      (\<forall>started. silence_start_time s = Some started \<longrightarrow>
         clock inp - started \<le> SILENCE_DURATION) \<longrightarrow>
      is_user_speaking (listen_iteration s inp)"
    using listen_hold [of s inp] by blast
  have d: "is_user_speaking s \<and> \<not> is_user_speaking (listen_iteration s inp) \<longrightarrow>
      \<not> loud inp \<and>
      (\<exists>started. silence_start_time s = Some started \<and>
         clock inp - started \<ge> SILENCE_DURATION)"
    using listen_flip_any [of s inp] by force
  have e: "silence_start_time s = None \<and> is_user_speaking (listen_run s inps) \<and>
      \<not> is_user_speaking (listen_run s (inps @ [inp])) \<longrightarrow>
      \<not> loud inp \<and>
      (\<exists>before silent. inps = before @ silent \<and> silent \<noteq> [] \<and>
         (\<forall>p \<in> set silent. \<not> loud p) \<and>
         clock inp - clock (hd silent) \<ge> SILENCE_DURATION)"
  proof (intro impI)
    assume h: "silence_start_time s = None \<and> is_user_speaking (listen_run s inps) \<and>
      \<not> is_user_speaking (listen_run s (inps @ [inp]))"
    then obtain before silent where "\<not> loud inp" "inps = before @ silent" "silent \<noteq> []"
        "\<forall>p \<in> set silent. \<not> loud p" "clock inp - clock (hd silent) > SILENCE_DURATION"
      using listen_run_flip_any [of s inps inp] by blast
    then have "\<not> loud inp \<and> inps = before @ silent \<and> silent \<noteq> [] \<and>
        (\<forall>p \<in> set silent. \<not> loud p) \<and> clock inp - clock (hd silent) \<ge> SILENCE_DURATION"
      by simp
    then show "\<not> loud inp \<and>
      (\<exists>before silent. inps = before @ silent \<and> silent \<noteq> [] \<and>
         (\<forall>p \<in> set silent. \<not> loud p) \<and>
         clock inp - clock (hd silent) \<ge> SILENCE_DURATION)" by blast
  qed
  have defaults: "VAD_THRESHOLD = 800 \<and> SILENCE_DURATION = 1 / 2"
    by (simp add: VAD_THRESHOLD_def SILENCE_DURATION_def)
  show ?thesis using a b c d e defaults by blast
qed

text \<open>
  Claim C5 as stated fails: the frame of the two samples 800 and 801 has an RMS
  above the threshold of 800 (about 800.5), and the pass that processes it
  leaves \<open>is_user_speaking\<close> false.
\<close>

theorem truncated_rms_misses_threshold:
  "real_of_int VAD_THRESHOLD < rms_energy near_threshold_frame \<and>
   \<not> paused demo_loop \<and> \<not> is_speaking demo_loop \<and>
   \<not> is_user_speaking (listen_iteration demo_loop
        \<lparr>read_result = Inr near_threshold_frame, clock = 0\<rparr>)"
proof -
  have "listen_iteration demo_loop \<lparr>read_result = Inr near_threshold_frame, clock = 0\<rparr> =
      vad_update 800 0 (demo_loop\<lparr>out_queue := out_queue demo_loop
        @ [Realtime near_threshold_frame ''audio/pcm'']\<rparr>)"
    using listen_processed [of demo_loop "\<lparr>read_result = Inr near_threshold_frame, clock = 0\<rparr>"
        near_threshold_frame 800]
    by (simp add: demo_loop_def init_def frame_rms_near)
  then show ?thesis
    using sqrt_near(1)
    by (simp add: rms_energy_near VAD_THRESHOLD_def vad_update_def demo_loop_def init_def)
qed

lemma float_sub_demo:
  "\<not> float_sub (5 / 4) 1 > SILENCE_DURATION" "float_sub 2 1 > SILENCE_DURATION"
proof -
  have "double_round (1 / 4) \<le> 1 / 2" by (rule double_round_le_half) simp
  then show "\<not> float_sub (5 / 4) 1 > SILENCE_DURATION"
    by (simp add: float_sub_def SILENCE_DURATION_def)
  show "float_sub 2 1 > SILENCE_DURATION"
    by (simp add: float_sub_def SILENCE_DURATION_def double_round_one)
qed

lemma demo_listen:
  "\<not> paused demo_loop" "\<not> is_speaking demo_loop" "silence_start_time demo_loop = None"
  "is_user_speaking (listen_run demo_loop speech_then_silence)"
  "silence_start_time (listen_run demo_loop speech_then_silence) = Some 1"
  "\<not> is_user_speaking (listen_run demo_loop
      (speech_then_silence @ [\<lparr>read_result = Inr quiet_frame, clock = 2\<rparr>]))"
  using float_sub_demo
  by (simp_all add: listen_run_def listen_iteration_def speech_then_silence_def
        frame_rms_loud frame_rms_quiet vad_update_def demo_loop_def init_def
        emit_def VAD_THRESHOLD_def Let_def)

theorem vad_hysteresis_witness:
  "is_user_speaking (listen_iteration demo_loop \<lparr>read_result = Inr loud_frame, clock = 0\<rparr>) \<and>
   loud \<lparr>read_result = Inr loud_frame, clock = 0\<rparr> \<and>
   801 \<le> rms_energy loud_frame \<and>
   is_user_speaking (listen_run demo_loop speech_then_silence) \<and>
   \<not> is_user_speaking (listen_run demo_loop
      (speech_then_silence @ [\<lparr>read_result = Inr quiet_frame, clock = 2\<rparr>])) \<and>
   (\<exists>before silent. speech_then_silence = before @ silent \<and> silent \<noteq> [] \<and>
      2 - clock (hd silent) \<ge> SILENCE_DURATION)"
proof -
  let ?first = "\<lparr>read_result = Inr loud_frame, clock = 0\<rparr>"
  let ?last = "\<lparr>read_result = Inr quiet_frame, clock = 2\<rparr>"
  have "\<not> paused demo_loop \<and> \<not> is_speaking demo_loop \<and> read_result ?first = Inr loud_frame \<and>
      frame_rms loud_frame = Inr 1000 \<and> 1000 > VAD_THRESHOLD \<longrightarrow>
      is_user_speaking (listen_iteration demo_loop ?first) \<and>
      silence_start_time (listen_iteration demo_loop ?first) = None"
    by (rule conjunct1 [OF vad_hysteresis [where s=demo_loop and inp="?first" and d=loud_frame
            and rms=1000 and inps="[]"]])
  then have one: "is_user_speaking (listen_iteration demo_loop ?first)"
    using demo_listen(1,2) frame_rms_loud by (simp add: VAD_THRESHOLD_def)
  have "read_result ?first = Inr loud_frame \<and> even (length loud_frame) \<and> 2 \<le> length loud_frame \<longrightarrow>
      frame_rms loud_frame = Inr \<lfloor>rms_energy loud_frame\<rfloor> \<and>
      (loud ?first \<longleftrightarrow> 801 \<le> rms_energy loud_frame)"
    by (rule conjunct1 [OF conjunct2 [OF vad_hysteresis [where s=demo_loop and inp="?first"
            and d=loud_frame and rms=1000 and inps="[]"]]])
  moreover have "loud ?first" by (simp add: loud_def frame_rms_loud VAD_THRESHOLD_def)
  ultimately have two: "loud ?first \<and> 801 \<le> rms_energy loud_frame"
    by (simp add: loud_frame_def)
  have "silence_start_time demo_loop = None \<and>
      is_user_speaking (listen_run demo_loop speech_then_silence) \<and>
      \<not> is_user_speaking (listen_run demo_loop (speech_then_silence @ [?last])) \<longrightarrow>
      \<not> loud ?last \<and>
      (\<exists>before silent. speech_then_silence = before @ silent \<and> silent \<noteq> [] \<and>
         (\<forall>p \<in> set silent. \<not> loud p) \<and>
         clock ?last - clock (hd silent) \<ge> SILENCE_DURATION)"
    by (rule conjunct1 [OF conjunct2 [OF conjunct2 [OF conjunct2 [OF conjunct2
          [OF vad_hysteresis [where s=demo_loop and inp="?last" and d=quiet_frame and rms=100
              and inps=speech_then_silence]]]]]])
  then have three: "\<exists>before silent. speech_then_silence = before @ silent \<and> silent \<noteq> [] \<and>
      2 - clock (hd silent) \<ge> SILENCE_DURATION"
    using demo_listen(3,4,6) by auto
  show ?thesis using one two three demo_listen(4,6) by blast
qed

subsection \<open>Echo suppression\<close>

text \<open>
  Claim C6. In a pass of the capture loop (not stopped, not paused) that has read
  a frame while \<open>is_speaking\<close> is true, the frame is dropped: the whole state
  is unchanged, in particular the outbound queue and the VAD state, and the loop
  goes on.
\<close>

theorem echo_suppression_discards_frame:
  assumes "\<not> stop_event s" and "\<not> paused s" and "read_result inp = Inr d" and "is_speaking s"
  shows "listen_audio_step s inp = (Looping, s) \<and>
         out_queue (listen_iteration s inp) = out_queue s \<and>
         is_user_speaking (listen_iteration s inp) = is_user_speaking s \<and>
         silence_start_time (listen_iteration s inp) = silence_start_time s"
  using assms by (simp add: listen_audio_step_def listen_iteration_def)

theorem echo_suppression_discards_frame_witness:
  "listen_audio_step (demo_loop\<lparr>is_speaking := True\<rparr>) \<lparr>read_result = Inr [0, 125], clock = 3\<rparr>
     = (Looping, demo_loop\<lparr>is_speaking := True\<rparr>) \<and>
   out_queue (listen_iteration (demo_loop\<lparr>is_speaking := True\<rparr>)
     \<lparr>read_result = Inr [0, 125], clock = 3\<rparr>) = []"
  using echo_suppression_discards_frame [of "demo_loop\<lparr>is_speaking := True\<rparr>" "\<lparr>read_result = Inr [0, 125], clock = 3\<rparr>"
      "[0, 125]"]
  by (simp add: demo_loop_def init_def)

subsection \<open>Read failures\<close>

text \<open>
  Claim C9, as amended. A pass of the capture loop whose device read raises is
  not fatal: the loop goes on, the error is printed on the console, the task
  sleeps 0.1 s, and nothing else changes. The error callback is not called: the
  messages handed to it are the same before and after.
\<close>

theorem read_failure_logged_and_retried:
  assumes "\<not> stop_event s" and "\<not> paused s" and "read_result inp = Inl e"
  shows "listen_audio_step s inp =
           (Looping, s\<lparr>effects := effects s @ [Print (LogReadError e), Sleep (1 / 10)]\<rparr>) \<and>
         error_reports (effects (snd (listen_audio_step s inp))) = error_reports (effects s)"
proof -
  have app: "error_reports (xs @ [Print m, Sleep t]) = error_reports xs" for xs m t
    by (induction xs rule: error_reports.induct) simp_all
  show ?thesis
    using assms by (simp add: listen_audio_step_def listen_iteration_def read_error_def emit_def app)
qed

text \<open>
  Claim C9 as stated fails: with an error callback registered and a failing
  read, nothing is handed to the callback.
\<close>

theorem read_failure_not_reported_to_callback:
  "on_error demo_loop \<and> \<not> stop_event demo_loop \<and> \<not> paused demo_loop \<and>
   read_result failed_read = Inl ''Input overflowed'' \<and>
   error_reports (effects (snd (listen_audio_step demo_loop failed_read))) = []"
  by (simp add: listen_audio_step_def listen_iteration_def read_error_def emit_def
        demo_loop_def init_def failed_read_def)

theorem read_failure_logged_and_retried_witness:
  "listen_audio_step demo_loop failed_read =
     (Looping, demo_loop\<lparr>effects := [Print (LogReadError ''Input overflowed''), Sleep (1 / 10)]\<rparr>)"
  using read_failure_logged_and_retried [of demo_loop failed_read "''Input overflowed''"]
  by (simp add: demo_loop_def init_def failed_read_def)

subsection \<open>RMS of short and of whole-sample frames\<close>

lemma unpack_even: "even (length d) \<Longrightarrow> unpack_shorts (length d div 2) d = Inr (shorts_of d)"
  by (auto simp: unpack_shorts_def)

text \<open>
  Claim C10, as amended. The RMS computation returns a value for every frame of
  fewer than two bytes and for every frame of whole 16-bit samples (an even
  number of bytes). A frame of fewer than two bytes has RMS 0, with no division
  by zero, and the pass that read it (not paused, not echo-suppressed) puts it
  on the outbound queue and runs the VAD update on RMS 0.
\<close>

theorem frame_rms_defined_on_whole_samples:
  "(length d < 2 \<or> even (length d) \<longrightarrow> (\<exists>rms. frame_rms d = Inr rms)) \<and>
   (length d < 2 \<longrightarrow>
      frame_rms d = Inr 0 \<and>
      (\<not> paused s \<and> \<not> is_speaking s \<and> read_result inp = Inr d \<longrightarrow>
         listen_iteration s inp =
           vad_update 0 (clock inp) (s\<lparr>out_queue := out_queue s @ [Realtime d ''audio/pcm'']\<rparr>)))"
proof -
  have short: "frame_rms d = Inr 0" if "length d < 2"
    using that by (simp add: frame_rms_def)
  have even: "\<exists>rms. frame_rms d = Inr rms" if "even (length d)"
    using that by (simp add: frame_rms_def Let_def unpack_even)
  have run: "listen_iteration s inp =
           vad_update 0 (clock inp) (s\<lparr>out_queue := out_queue s @ [Realtime d ''audio/pcm'']\<rparr>)"
    if "length d < 2" "\<not> paused s" "\<not> is_speaking s" "read_result inp = Inr d"
    using that short by (simp add: listen_iteration_def Let_def)
  show ?thesis using short even run by blast
qed

text \<open>
  Claim C10 as stated fails for "every frame": on a frame of three bytes
  \<open>struct.unpack\<close> raises, no RMS is computed and the capture loop treats
  the exception as a read error.
\<close>

theorem odd_frame_rms_raises:
  "frame_rms [0, 0, 0] = Inl ''unpack requires a buffer of 2 bytes'' \<and>
   effects (listen_iteration demo_loop \<lparr>read_result = Inr [0, 0, 0], clock = 0\<rparr>) =
     [Print (LogReadError ''unpack requires a buffer of 2 bytes''), Sleep (1 / 10)]"
proof -
  have digits: "nat_digits 2 = ''2''" by code_simp
  have rms: "frame_rms [0, 0, 0] = Inl ''unpack requires a buffer of 2 bytes''"
    by (simp add: frame_rms_def unpack_shorts_def digits)
  show ?thesis
    by (simp add: rms listen_iteration_def read_error_def emit_def demo_loop_def init_def)
qed

theorem frame_rms_defined_on_whole_samples_witness:
  "frame_rms [7] = Inr 0 \<and>
   listen_iteration (demo_loop\<lparr>is_user_speaking := True\<rparr>) \<lparr>read_result = Inr [7], clock = 5\<rparr> =
     demo_loop\<lparr>is_user_speaking := True, out_queue := [Realtime [7] ''audio/pcm''],
       silence_start_time := Some 5\<rparr>"
  using frame_rms_defined_on_whole_samples [of "[7]" "demo_loop\<lparr>is_user_speaking := True\<rparr>" "\<lparr>read_result = Inr [7], clock = 5\<rparr>"]
  by (simp add: demo_loop_def init_def vad_update_def VAD_THRESHOLD_def)

subsection \<open>Tool dispatch\<close>













subsection \<open>The stop signal\<close>

























text \<open>An exception that nothing catches ends its task, and the group cancels the
  others.\<close>

lemma crash_cancels_siblings:
  "engine_step w (start_tasks s) (ListenOpen (Inl e) open_error) =
     \<lparr>loop = s, send_task = Cancelled, listen_task = Crashed e, receive_task = Cancelled,
      play_task = Cancelled\<rparr>"
  by (simp add: engine_step_def task_group_def crashed_def cancel_all_def cancel_task_def
        start_tasks_def listen_audio_open_def)




end
